theory Spec2Isabelle
  imports Main "HOL-Library.Word"
begin

section \<open>HiddenElector: a shallow embedding of the election contract\<close>

text \<open>
  The contract \<open>HiddenElector\<close> keeps four pieces of storage: the next election
  identifier, the election metadata, the encrypted per-option tallies and the
  per-election record of who has voted. The state below adds the one piece of the
  encrypted arithmetic capability's own state that the contract can observe: the
  handles allowed for public decryption. Solidity mappings are total: a key that was
  never written reads as the zero value of its type, so they are modelled as total
  functions. A \<open>revert\<close> discards every write of the call; each entry point
  therefore returns either an error or the new state, and \<open>exec\<close> keeps the old
  state when the call reverts. Events and \<open>FHE.allowThis\<close> (a permission for the
  contract itself) are not observable through any operation below and are left out.

  \<open>uint256\<close> values (identifiers, \<open>block.timestamp\<close>) are naturals; the only
  arithmetic on them is \<open>_nextElectionId++\<close>, whose checked overflow is written
  out. \<open>uint8\<close> option indices are naturals as well; the cast
  \<open>uint8(election.options.length)\<close> is written out as \<open>mod 256\<close>, and the loop
  counter cannot overflow because it stays below a \<open>uint8\<close> bound.
\<close>

subsection \<open>The encrypted arithmetic capability\<close>

type_synonym address = "160 word"
type_synonym bytes = "8 word list"

text \<open>
  Modelled from the spec: an externally supplied encrypted value, as the client-side
  encryption service produced it. It is identified by the plaintext it hides, the
  identity it was encrypted for and the proof generated with it; two encryptions
  differ in their proofs.
\<close>

record externalEuint32 =
  ext_plain :: "32 word"
  ext_user :: address
  ext_proof :: bytes

text \<open>
  Modelled from the spec: the library \<open>@fhevm/solidity\<close> (\<open>FHE.sol\<close>) is not part
  of the sources. The contract holds an encrypted integer as a handle.
  \<open>Uninitialized\<close> is the zero handle that an unwritten storage slot holds. Every
  other handle is determined by the operation that produced it and by the handles it
  was applied to (the library derives it from them), so a handle is modelled as the
  term that built it: the same operation on the same operands gives the same handle,
  and different terms are different handles. Whether a value is publicly revealable
  is recorded by the capability per handle, in an access-control list that is part of
  the ledger state; every holder of a handle gets the same answer.
\<close>

datatype euint32 =
    Uninitialized
  | TrivialEncrypt "32 word"
  | Verified externalEuint32
  | FheAdd euint32 euint32
  | FheSelect ebool euint32 euint32
and ebool =
    FheEq euint32 euint32

type_synonym acl = "euint32 \<Rightarrow> bool"

text \<open>
  The custom errors of the contract, under the names of the source (the specification
  writes \<open>EmptyLabel\<close> for \<open>EmptyOption\<close>, \<open>AlreadyFinalized\<close> for
  \<open>ElectionAlreadyFinalized\<close> and \<open>InvalidOptionIndex\<close> for \<open>InvalidOption\<close>),
  followed by the two reverts that do not come from the contract's own checks:
  \<open>InvalidProof\<close> from the encrypted arithmetic capability and \<open>Panic\<close> from
  checked arithmetic.
\<close>

datatype error =
    ElectionNotFound
  | InvalidOptionCount
  | EmptyOption
  | InvalidEndTime
  | AlreadyVoted
  | ElectionAlreadyFinalized
  | ElectionOngoing
  | InvalidOption
  | ElectionClosed
  | InvalidProof
  | Panic

text \<open>
  Modelled from the spec: the plaintext hidden behind a handle, in the arithmetic of
  32-bit unsigned integers, and the truth value hidden behind an encrypted boolean.
  Neither is available to the contract.
\<close>

fun plaintext :: "euint32 \<Rightarrow> 32 word" and truth :: "ebool \<Rightarrow> bool" where
  "plaintext Uninitialized = 0"
| "plaintext (TrivialEncrypt v) = v"
| "plaintext (Verified x) = ext_plain x"
| "plaintext (FheAdd a b) = plaintext a + plaintext b"
| "plaintext (FheSelect c a b) = (if truth c then plaintext a else plaintext b)"
| "truth (FheEq a b) = (plaintext a = plaintext b)"

text \<open>Modelled from the spec: \<open>FHE.isInitialized\<close>.\<close>

fun isInitialized :: "euint32 \<Rightarrow> bool" where
  "isInitialized Uninitialized = False"
| "isInitialized _ = True"

text \<open>Modelled from the spec: \<open>FHE.asEuint32\<close>, the trivial encryption of a constant.\<close>

definition asEuint32 :: "32 word \<Rightarrow> euint32" where
  "asEuint32 v = TrivialEncrypt v"

text \<open>
  Modelled from the spec: the capability treats an uninitialised operand as encrypted
  zero.
\<close>

definition operand :: "euint32 \<Rightarrow> euint32" where
  "operand v = (if isInitialized v then v else asEuint32 0)"

text \<open>
  Modelled from the spec: \<open>FHE.fromExternal\<close> (\<open>importExternal\<close>), which fails with
  \<open>InvalidProof\<close> unless the proof validates against the supplied value and the
  caller, and otherwise hands the supplied value to the contract.
\<close>

definition fromExternal :: "externalEuint32 \<Rightarrow> bytes \<Rightarrow> address \<Rightarrow> error + euint32" where
  "fromExternal encryptedChoice inputProof caller =
     (if inputProof = ext_proof encryptedChoice \<and> caller = ext_user encryptedChoice
      then Inr (Verified encryptedChoice)
      else Inl InvalidProof)"

text \<open>Modelled from the spec: \<open>FHE.eq\<close> (\<open>equals\<close>).\<close>

definition eq :: "euint32 \<Rightarrow> euint32 \<Rightarrow> ebool" where
  "eq a b = FheEq (operand a) (operand b)"

text \<open>Modelled from the spec: \<open>FHE.select\<close>.\<close>

definition select :: "ebool \<Rightarrow> euint32 \<Rightarrow> euint32 \<Rightarrow> euint32" where
  "select c a b = FheSelect c (operand a) (operand b)"

text \<open>Modelled from the spec: \<open>FHE.add\<close>, addition of 32-bit unsigned integers.\<close>

definition add :: "euint32 \<Rightarrow> euint32 \<Rightarrow> euint32" where
  "add a b = FheAdd (operand a) (operand b)"

text \<open>
  Modelled from the spec: \<open>FHE.makePubliclyDecryptable\<close> (\<open>markPubliclyRevealable\<close>)
  records the handle in the access-control list and returns it, an uninitialised
  argument standing for encrypted zero as in every operation;
  \<open>FHE.isPubliclyDecryptable\<close> (\<open>isPubliclyRevealable\<close>) looks the handle up.
\<close>

definition makePubliclyDecryptable :: "euint32 \<Rightarrow> acl \<Rightarrow> euint32 \<times> acl" where
  "makePubliclyDecryptable v allowed = (operand v, allowed(operand v := True))"

definition isPubliclyDecryptable :: "acl \<Rightarrow> euint32 \<Rightarrow> bool" where
  "isPubliclyDecryptable allowed v = allowed v"

text \<open>
  Modelled from the spec: the external public-decryption capability, which discloses
  the plaintext of a publicly revealable value and of no other.
\<close>

definition publicDecrypt :: "acl \<Rightarrow> euint32 \<Rightarrow> 32 word option" where
  "publicDecrypt allowed v = (if isPubliclyDecryptable allowed v then Some (plaintext v) else None)"

subsection \<open>Storage\<close>

definition MIN_OPTIONS :: nat where
  "MIN_OPTIONS = 2"

definition MAX_OPTIONS :: nat where
  "MAX_OPTIONS = 8"

record Election =
  name :: string
  endTime :: "64 word"
  finalized :: bool
  creator :: address
  options :: "string list"

record ElectionView =
  view_name :: string
  view_endTime :: "64 word"
  view_finalized :: bool
  view_creator :: address
  view_optionCount :: nat
  view_options :: "string list"

record state =
  nextElectionId :: nat
  elections :: "nat \<Rightarrow> Election"
  tallies :: "nat \<Rightarrow> nat \<Rightarrow> euint32"
  hasVoted :: "nat \<Rightarrow> address \<Rightarrow> bool"
  allowedForDecryption :: acl

text \<open>The zero value of the struct, read from a slot that was never written.\<close>

definition noElection :: Election where
  "noElection = \<lparr>name = [], endTime = 0, finalized = False, creator = 0, options = []\<rparr>"

text \<open>
  The ledger state right after deployment: empty storage, and no handle allowed for
  public decryption.
\<close>

definition deployed :: state where
  "deployed = \<lparr>nextElectionId = 0, elections = (\<lambda>_. noElection),
                tallies = (\<lambda>_ _. Uninitialized), hasVoted = (\<lambda>_ _. False),
                allowedForDecryption = (\<lambda>_. False)\<rparr>"

subsection \<open>Internal helpers\<close>

definition requireElection :: "nat \<Rightarrow> state \<Rightarrow> error + Election" where
  "requireElection electionId s =
     (let election = elections s electionId
      in if length (name election) = 0 then Inl ElectionNotFound else Inr election)"

definition requireValidOption :: "nat \<Rightarrow> nat \<Rightarrow> state \<Rightarrow> error + unit" where
  "requireValidOption electionId optionIndex s =
     (case requireElection electionId s of
        Inl e \<Rightarrow> Inl e
      | Inr election \<Rightarrow>
          if optionIndex \<ge> length (options election) then Inl InvalidOption else Inr ())"

subsection \<open>createElection\<close>

text \<open>
  The loop of \<open>createElection\<close>: each label is checked and pushed onto the stored
  array in turn; an empty label reverts the whole call.
\<close>

fun pushOptions :: "string list \<Rightarrow> string list \<Rightarrow> error + string list" where
  "pushOptions [] stored = Inr stored"
| "pushOptions (opt # rest) stored =
     (if length opt = 0 then Inl EmptyOption else pushOptions rest (stored @ [opt]))"

definition createElection ::
  "address \<Rightarrow> nat \<Rightarrow> string \<Rightarrow> string list \<Rightarrow> 64 word \<Rightarrow> state \<Rightarrow> error + (nat \<times> state)" where
  "createElection msg_sender block_timestamp nm opts et s =
     (if length nm = 0 then Inl EmptyOption
      else if unat et \<le> block_timestamp then Inl InvalidEndTime
      else if length opts < MIN_OPTIONS \<or> length opts > MAX_OPTIONS then Inl InvalidOptionCount
      else if nextElectionId s + 1 \<ge> 2 ^ 256 then Inl Panic
      else
        let electionId = nextElectionId s;
            s1 = s\<lparr>nextElectionId := electionId + 1\<rparr>;
            election = (elections s1 electionId)\<lparr>name := nm, endTime := et, creator := msg_sender\<rparr>
        in case pushOptions opts (options election) of
             Inl e \<Rightarrow> Inl e
           | Inr stored \<Rightarrow>
               Inr (electionId,
                    s1\<lparr>elections := (elections s1)(electionId := election\<lparr>options := stored\<rparr>)\<rparr>))"

subsection \<open>vote\<close>

text \<open>
  The loop of \<open>vote\<close>, from index \<open>i\<close> up to \<open>optionCount\<close>: every accumulator
  below \<open>optionCount\<close> is replaced by its sum with the selected delta.
\<close>

function voteLoop :: "nat \<Rightarrow> euint32 \<Rightarrow> nat \<Rightarrow> nat \<Rightarrow> state \<Rightarrow> state" where
  "voteLoop electionId choice i optionCount s =
     (if i < optionCount then
        let one = asEuint32 1;
            zero = asEuint32 0;
            matches = eq choice (asEuint32 (of_nat i));
            delta = select matches one zero;
            s' = s\<lparr>tallies := (tallies s)(electionId :=
                     (tallies s electionId)(i := add (tallies s electionId i) delta))\<rparr>
        in voteLoop electionId choice (Suc i) optionCount s'
      else s)"
  by pat_completeness auto
termination
  by (relation "measure (\<lambda>(electionId, choice, i, optionCount, s). optionCount - i)") auto

definition vote ::
  "address \<Rightarrow> nat \<Rightarrow> nat \<Rightarrow> externalEuint32 \<Rightarrow> bytes \<Rightarrow> state \<Rightarrow> error + state" where
  "vote msg_sender block_timestamp electionId encryptedChoice inputProof s =
     (case requireElection electionId s of
        Inl e \<Rightarrow> Inl e
      | Inr election \<Rightarrow>
          if block_timestamp \<ge> unat (endTime election) then Inl ElectionClosed
          else if finalized election then Inl ElectionAlreadyFinalized
          else if hasVoted s electionId msg_sender then Inl AlreadyVoted
          else
            case fromExternal encryptedChoice inputProof msg_sender of
              Inl e \<Rightarrow> Inl e
            | Inr choice \<Rightarrow>
                let optionCount = length (options election) mod 256;
                    s' = voteLoop electionId choice 0 optionCount s
                in Inr (s'\<lparr>hasVoted := (hasVoted s')(electionId :=
                           (hasVoted s' electionId)(msg_sender := True))\<rparr>))"

subsection \<open>finalizeElection\<close>

function finalizeLoop :: "nat \<Rightarrow> nat \<Rightarrow> nat \<Rightarrow> state \<Rightarrow> state" where
  "finalizeLoop electionId i optionCount s =
     (if i < optionCount then
        let tally = tallies s electionId i;
            tally' = (if \<not> isInitialized tally then asEuint32 0 else tally);
            (revealable, allowed) = makePubliclyDecryptable tally' (allowedForDecryption s);
            s' = s\<lparr>tallies := (tallies s)(electionId :=
                     (tallies s electionId)(i := revealable)),
                   allowedForDecryption := allowed\<rparr>
        in finalizeLoop electionId (Suc i) optionCount s'
      else s)"
  by pat_completeness auto
termination
  by (relation "measure (\<lambda>(electionId, i, optionCount, s). optionCount - i)") auto

definition finalizeElection :: "nat \<Rightarrow> nat \<Rightarrow> state \<Rightarrow> error + state" where
  "finalizeElection block_timestamp electionId s =
     (case requireElection electionId s of
        Inl e \<Rightarrow> Inl e
      | Inr election \<Rightarrow>
          if block_timestamp < unat (endTime election) then Inl ElectionOngoing
          else if finalized election then Inl ElectionAlreadyFinalized
          else
            let optionCount = length (options election) mod 256;
                s' = finalizeLoop electionId 0 optionCount s
            in Inr (s'\<lparr>elections := (elections s')(electionId :=
                       (elections s' electionId)\<lparr>finalized := True\<rparr>)\<rparr>))"

subsection \<open>Read operations\<close>

definition getElectionCount :: "state \<Rightarrow> nat" where
  "getElectionCount s = nextElectionId s"

definition getElection :: "nat \<Rightarrow> state \<Rightarrow> error + ElectionView" where
  "getElection electionId s =
     (case requireElection electionId s of
        Inl e \<Rightarrow> Inl e
      | Inr election \<Rightarrow>
          let optionCount = length (options election) mod 256
          in Inr \<lparr>view_name = name election, view_endTime = endTime election,
                  view_finalized = finalized election, view_creator = creator election,
                  view_optionCount = optionCount,
                  view_options = take optionCount (options election)\<rparr>)"

definition getEncryptedTally :: "nat \<Rightarrow> nat \<Rightarrow> state \<Rightarrow> error + euint32" where
  "getEncryptedTally electionId optionIndex s =
     (case requireValidOption electionId optionIndex s of
        Inl e \<Rightarrow> Inl e
      | Inr _ \<Rightarrow> Inr (tallies s electionId optionIndex))"

definition hasAddressVoted :: "nat \<Rightarrow> address \<Rightarrow> state \<Rightarrow> error + bool" where
  "hasAddressVoted electionId voter s =
     (case requireElection electionId s of
        Inl e \<Rightarrow> Inl e
      | Inr _ \<Rightarrow> Inr (hasVoted s electionId voter))"

definition isTallyPublic :: "nat \<Rightarrow> nat \<Rightarrow> state \<Rightarrow> error + bool" where
  "isTallyPublic electionId optionIndex s =
     (case requireValidOption electionId optionIndex s of
        Inl e \<Rightarrow> Inl e
      | Inr _ \<Rightarrow>
          Inr (isPubliclyDecryptable (allowedForDecryption s) (tallies s electionId optionIndex)))"

subsection \<open>Transactions\<close>

text \<open>
  A transaction is a caller, the timestamp of its block and the call. A call that
  reverts leaves the storage as it was.
\<close>

datatype call =
    CreateElection string "string list" "64 word"
  | Vote nat externalEuint32 bytes
  | FinalizeElection nat

type_synonym tx = "address \<times> nat \<times> call"

fun exec :: "tx \<Rightarrow> state \<Rightarrow> state" where
  "exec (msg_sender, block_timestamp, CreateElection nm opts et) s =
     (case createElection msg_sender block_timestamp nm opts et s of
        Inl _ \<Rightarrow> s | Inr (_, s') \<Rightarrow> s')"
| "exec (msg_sender, block_timestamp, Vote electionId encryptedChoice inputProof) s =
     (case vote msg_sender block_timestamp electionId encryptedChoice inputProof s of
        Inl _ \<Rightarrow> s | Inr s' \<Rightarrow> s')"
| "exec (msg_sender, block_timestamp, FinalizeElection electionId) s =
     (case finalizeElection block_timestamp electionId s of
        Inl _ \<Rightarrow> s | Inr s' \<Rightarrow> s')"

fun run :: "state \<Rightarrow> tx list \<Rightarrow> state" where
  "run s [] = s"
| "run s (t # ts) = run (exec t s) ts"

text \<open>
  Block timestamps never decrease: \<open>chronological t ts\<close> holds when the transactions
  \<open>ts\<close> carry non-decreasing timestamps, none earlier than \<open>t\<close>; \<open>clock t ts\<close> is
  the timestamp of the last block.
\<close>

fun chronological :: "nat \<Rightarrow> tx list \<Rightarrow> bool" where
  "chronological t [] = True"
| "chronological t ((_, block_timestamp, _) # ts) =
     (t \<le> block_timestamp \<and> chronological block_timestamp ts)"

fun clock :: "nat \<Rightarrow> tx list \<Rightarrow> nat" where
  "clock t [] = t"
| "clock t ((_, block_timestamp, _) # ts) = clock block_timestamp ts"

subsection \<open>Invariant of the storage\<close>

text \<open>
  Identifiers at or above the counter were never written; every election below it has
  a name and between two and eight non-empty labels. The handles allowed for public
  decryption are exactly those held by the option accumulators of the finalized
  elections, and those accumulators are initialised.
\<close>

definition wf :: "state \<Rightarrow> bool" where
  "wf s \<longleftrightarrow>
     (\<forall>e. nextElectionId s \<le> e \<longrightarrow>
        elections s e = noElection \<and> (\<forall>i. tallies s e i = Uninitialized) \<and> (\<forall>a. \<not> hasVoted s e a)) \<and>
     (\<forall>e. e < nextElectionId s \<longrightarrow>
        name (elections s e) \<noteq> [] \<and>
        MIN_OPTIONS \<le> length (options (elections s e)) \<and>
        length (options (elections s e)) \<le> MAX_OPTIONS \<and>
        [] \<notin> set (options (elections s e))) \<and>
     (\<forall>h. allowedForDecryption s h \<longleftrightarrow>
        (\<exists>e i. finalized (elections s e) \<and> i < length (options (elections s e)) \<and>
               tallies s e i = h)) \<and>
     (\<forall>e i. finalized (elections s e) \<and> i < length (options (elections s e)) \<longrightarrow>
        isInitialized (tallies s e i))"

text \<open>
  \<open>closedBy s t\<close>: every election finalized in \<open>s\<close> has a closing time at or
  before \<open>t\<close>.
\<close>

definition closedBy :: "state \<Rightarrow> nat \<Rightarrow> bool" where
  "closedBy s t \<longleftrightarrow> (\<forall>e. finalized (elections s e) \<longrightarrow> unat (endTime (elections s e)) \<le> t)"

subsection \<open>Accepted votes and revealed tallies\<close>

text \<open>
  The plaintext choices of the votes accepted for election \<open>e\<close> along a run, in
  order. The contract never sees them; they are what the tallies are compared with.
\<close>

fun acceptedChoices :: "nat \<Rightarrow> state \<Rightarrow> tx list \<Rightarrow> 32 word list" where
  "acceptedChoices e s [] = []"
| "acceptedChoices e s ((msg_sender, block_timestamp, c) # txs) =
     (case c of
        Vote electionId encryptedChoice inputProof \<Rightarrow>
          (if electionId = e \<and>
              \<not> isl (vote msg_sender block_timestamp electionId encryptedChoice inputProof s)
           then [ext_plain encryptedChoice] else [])
      | _ \<Rightarrow> [])
     @ acceptedChoices e (exec (msg_sender, block_timestamp, c) s) txs"

text \<open>The number of ballot records of an election.\<close>

definition ballotCount :: "state \<Rightarrow> nat \<Rightarrow> nat" where
  "ballotCount s e = card {a. hasVoted s e a}"

text \<open>
  The sum of the revealed option tallies; an accumulator that is not publicly
  revealable discloses nothing and counts as zero.
\<close>

definition tallySum :: "state \<Rightarrow> nat \<Rightarrow> nat" where
  "tallySum s e =
     sum_list (map (\<lambda>i. case publicDecrypt (allowedForDecryption s) (tallies s e i) of
                          None \<Rightarrow> 0 | Some p \<Rightarrow> unat p)
                   [0..<length (options (elections s e))])"

text \<open>The number of choices in a list that name option \<open>i\<close>.\<close>

definition votesFor :: "nat \<Rightarrow> 32 word list \<Rightarrow> nat" where
  "votesFor i cs = length (filter (\<lambda>c. unat c = i) cs)"

text \<open>
  \<open>tallied s e cs\<close>: the accumulators of election \<open>e\<close> count the choices
  \<open>cs\<close>, and there is one ballot record per choice.
\<close>

definition tallied :: "state \<Rightarrow> nat \<Rightarrow> 32 word list \<Rightarrow> bool" where
  "tallied s e cs \<longleftrightarrow>
     (\<forall>i. i < length (options (elections s e)) \<longrightarrow>
        plaintext (tallies s e i) = of_nat (votesFor i cs)) \<and>
     ballotCount s e = length cs"

subsection \<open>A referendum\<close>

text \<open>
  The scenario of the test suite: an election with the options Yes and No that closes
  at time 70, two votes for No, and the finalization at closing time. In \<open>spoiled\<close>
  the only ballot names an option that does not exist. In \<open>reused\<close> a second
  election is open until time 90, Alice submits one and the same encrypted choice to
  both elections, and only the referendum is finalized.
\<close>

definition alice :: address where "alice = 1"
definition bob :: address where "bob = 2"
definition carol :: address where "carol = 3"

definition ballot :: "address \<Rightarrow> 32 word \<Rightarrow> externalEuint32" where
  "ballot voter c = \<lparr>ext_plain = c, ext_user = voter, ext_proof = [1]\<rparr>"

definition opened :: "tx list" where
  "opened = [(alice, 10, CreateElection ''Referendum'' [''Yes'', ''No''] 70)]"

definition polled :: "tx list" where
  "polled = opened @ [(alice, 20, Vote 0 (ballot alice 1) [1]), (bob, 30, Vote 0 (ballot bob 1) [1])]"

definition concluded :: "tx list" where
  "concluded = polled @ [(carol, 70, FinalizeElection 0)]"

definition spoiled :: "tx list" where
  "spoiled = opened @ [(alice, 20, Vote 0 (ballot alice 5) [1]), (carol, 70, FinalizeElection 0)]"

definition reused :: "tx list" where
  "reused = opened @
     [(bob, 11, CreateElection ''Board'' [''Ann'', ''Ben''] 90),
      (alice, 20, Vote 0 (ballot alice 1) [1]),
      (alice, 21, Vote 1 (ballot alice 1) [1]),
      (carol, 70, FinalizeElection 0)]"

section \<open>Closed forms of the operations\<close>

declare voteLoop.simps [simp del]
declare finalizeLoop.simps [simp del]

lemma isInitialized_operand [simp]: "isInitialized (operand v)"
  by (cases v) (simp_all add: operand_def asEuint32_def)

lemma operand_initialized [simp]: "isInitialized v \<Longrightarrow> operand v = v"
  by (simp add: operand_def)

lemma operand_idem [simp]: "operand (operand v) = operand v"
  by simp

lemma plaintext_operand [simp]: "plaintext (operand v) = plaintext v"
  by (cases v) (simp_all add: operand_def asEuint32_def)

lemma operand_alt: "(if \<not> isInitialized v then asEuint32 0 else v) = operand v"
  by (simp add: operand_def)

lemma voteLoop_closed:
  "voteLoop electionId choice i n s =
     s\<lparr>tallies := (\<lambda>e j. if e = electionId \<and> i \<le> j \<and> j < n
                          then add (tallies s e j) (select (eq choice (asEuint32 (of_nat j))) (asEuint32 1) (asEuint32 0))
                          else tallies s e j)\<rparr>"
proof (induction electionId choice i n s rule: voteLoop.induct)
  case (1 electionId choice i n s)
  show ?case
  proof (cases "i < n")
    case True
    note IH = 1[OF True refl refl refl refl refl]
    show ?thesis
      apply (subst voteLoop.simps)
      apply (simp only: True if_True Let_def)
      apply (subst IH)
      apply (rule state.equality)
      using True apply (auto simp: fun_eq_iff)
      done
  next
    case False
    then show ?thesis
      by (subst voteLoop.simps, simp, intro state.equality) (auto simp: fun_eq_iff)
  qed
qed

lemma finalizeLoop_closed:
  "finalizeLoop electionId i n s =
     s\<lparr>tallies := (\<lambda>e j. if e = electionId \<and> i \<le> j \<and> j < n
                          then operand (tallies s e j) else tallies s e j),
       allowedForDecryption := (\<lambda>h. allowedForDecryption s h \<or>
          h \<in> set (map (\<lambda>j. operand (tallies s electionId j)) [i..<n]))\<rparr>"
proof (induction electionId i n s rule: finalizeLoop.induct)
  case (1 electionId i n s)
  show ?case
  proof (cases "i < n")
    case True
    define s' where "s' = s\<lparr>tallies := (tallies s)(electionId :=
                     (tallies s electionId)(i := operand (tallies s electionId i))),
                   allowedForDecryption :=
                     (allowedForDecryption s)(operand (tallies s electionId i) := True)\<rparr>"
    have step: "finalizeLoop electionId i n s = finalizeLoop electionId (Suc i) n s'"
      using True
      by (subst finalizeLoop.simps)
         (simp add: Let_def makePubliclyDecryptable_def operand_alt s'_def)
    have pr: "(operand (tallies s electionId i),
               (allowedForDecryption s)(operand (tallies s electionId i) := True)) =
              makePubliclyDecryptable
                (if \<not> isInitialized (tallies s electionId i) then asEuint32 0
                 else tallies s electionId i) (allowedForDecryption s)"
      by (simp add: makePubliclyDecryptable_def operand_alt)
    note IH = 1 [OF True refl refl refl pr refl, folded s'_def]
    have later: "map (\<lambda>j. operand (tallies s' electionId j)) [Suc i..<n] =
                 map (\<lambda>j. operand (tallies s electionId j)) [Suc i..<n]"
      by (rule map_cong) (auto simp: s'_def)
    have upt: "[i..<n] = i # [Suc i..<n]"
      using True by (rule upt_conv_Cons)
    show ?thesis
      unfolding step IH later upt
      using True by (intro state.equality) (auto simp: s'_def fun_eq_iff)
  next
    case False
    then show ?thesis
      by (subst finalizeLoop.simps, simp, intro state.equality) (auto simp: fun_eq_iff)
  qed
qed

lemma pushOptions_closed:
  "pushOptions opts stored = (if [] \<in> set opts then Inl EmptyOption else Inr (stored @ opts))"
  by (induction opts arbitrary: stored) auto

lemma createElection_closed:
  "createElection a now nm opts et s =
     (if nm = [] then Inl EmptyOption
      else if unat et \<le> now then Inl InvalidEndTime
      else if length opts < 2 \<or> 8 < length opts then Inl InvalidOptionCount
      else if 2 ^ 256 \<le> nextElectionId s + 1 then Inl Panic
      else if [] \<in> set opts then Inl EmptyOption
      else Inr (nextElectionId s,
                s\<lparr>nextElectionId := nextElectionId s + 1,
                  elections := (elections s)(nextElectionId s :=
                    (elections s (nextElectionId s))
                      \<lparr>name := nm, endTime := et, creator := a,
                       options := options (elections s (nextElectionId s)) @ opts\<rparr>)\<rparr>))"
  by (simp add: createElection_def pushOptions_closed MIN_OPTIONS_def MAX_OPTIONS_def Let_def)

lemma vote_closed:
  "vote a now e ext prf s =
     (if name (elections s e) = [] then Inl ElectionNotFound
      else if unat (endTime (elections s e)) \<le> now then Inl ElectionClosed
      else if finalized (elections s e) then Inl ElectionAlreadyFinalized
      else if hasVoted s e a then Inl AlreadyVoted
      else if \<not> (prf = ext_proof ext \<and> a = ext_user ext) then Inl InvalidProof
      else Inr (s\<lparr>tallies := (\<lambda>e' j. if e' = e \<and> j < length (options (elections s e)) mod 256
                          then add (tallies s e' j)
                                 (select (eq (Verified ext) (asEuint32 (of_nat j)))
                                    (asEuint32 1) (asEuint32 0))
                          else tallies s e' j),
                 hasVoted := (hasVoted s)(e := (hasVoted s e)(a := True))\<rparr>))"
  by (simp add: vote_def requireElection_def fromExternal_def voteLoop_closed Let_def)

lemma finalizeElection_closed:
  "finalizeElection now e s =
     (if name (elections s e) = [] then Inl ElectionNotFound
      else if now < unat (endTime (elections s e)) then Inl ElectionOngoing
      else if finalized (elections s e) then Inl ElectionAlreadyFinalized
      else Inr (s\<lparr>tallies := (\<lambda>e' j. if e' = e \<and> j < length (options (elections s e)) mod 256
                          then operand (tallies s e' j) else tallies s e' j),
                 allowedForDecryption := (\<lambda>h. allowedForDecryption s h \<or>
                    h \<in> set (map (\<lambda>j. operand (tallies s e j))
                               [0..<length (options (elections s e)) mod 256])),
                 elections := (elections s)(e := (elections s e)\<lparr>finalized := True\<rparr>)\<rparr>))"
  by (simp add: finalizeElection_def requireElection_def finalizeLoop_closed Let_def)

lemma wf_deployed: "wf deployed"
  by (simp add: wf_def deployed_def noElection_def)

lemma wf_exists: "wf s \<Longrightarrow> name (elections s e) \<noteq> [] \<longleftrightarrow> e < nextElectionId s"
  by (cases "e < nextElectionId s") (auto simp: wf_def noElection_def)

lemma wf_optionCount:
  "wf s \<Longrightarrow> length (options (elections s e)) mod 256 = length (options (elections s e))"
  by (cases "e < nextElectionId s") (auto simp: wf_def noElection_def MAX_OPTIONS_def)

lemma wf_options_le: "wf s \<Longrightarrow> length (options (elections s e)) \<le> 8"
  by (cases "e < nextElectionId s") (auto simp: wf_def noElection_def MAX_OPTIONS_def)

lemma wf_allowed:
  "wf s \<Longrightarrow> allowedForDecryption s h \<longleftrightarrow>
     (\<exists>e i. finalized (elections s e) \<and> i < length (options (elections s e)) \<and> tallies s e i = h)"
  by (simp add: wf_def)

lemma wf_finalized_initialized:
  "wf s \<Longrightarrow> finalized (elections s e) \<Longrightarrow> i < length (options (elections s e)) \<Longrightarrow>
   isInitialized (tallies s e i)"
  by (simp add: wf_def)

lemma wf_fresh_unfinalized: "wf s \<Longrightarrow> \<not> finalized (elections s (nextElectionId s))"
  by (simp add: wf_def noElection_def)

lemma wf_createElection:
  assumes w: "wf s" and c: "createElection a now nm opts et s = Inr (eid, s')"
  shows "wf s'"
proof -
  let ?n = "nextElectionId s"
  from c have s': "s' = s\<lparr>nextElectionId := ?n + 1,
                  elections := (elections s)(?n :=
                    (elections s ?n)\<lparr>name := nm, endTime := et, creator := a,
                       options := options (elections s ?n) @ opts\<rparr>)\<rparr>"
    and ok: "nm \<noteq> []" "2 \<le> length opts" "length opts \<le> 8" "[] \<notin> set opts"
    by (auto simp: createElection_closed split: if_splits)
  from w have fresh: "elections s ?n = noElection"
    by (simp add: wf_def)
  have fin: "finalized (elections s' e) = finalized (elections s e)" for e
    by (simp add: s')
  have opt: "finalized (elections s e) \<Longrightarrow> options (elections s' e) = options (elections s e)" for e
    using wf_fresh_unfinalized [OF w] by (auto simp: s')
  have 1: "\<forall>e. nextElectionId s' \<le> e \<longrightarrow>
        elections s' e = noElection \<and> (\<forall>i. tallies s' e i = Uninitialized) \<and> (\<forall>a. \<not> hasVoted s' e a)"
    using w by (simp add: s' wf_def)
  have 2: "\<forall>e. e < nextElectionId s' \<longrightarrow>
        name (elections s' e) \<noteq> [] \<and>
        MIN_OPTIONS \<le> length (options (elections s' e)) \<and>
        length (options (elections s' e)) \<le> MAX_OPTIONS \<and>
        [] \<notin> set (options (elections s' e))"
    using w ok fresh
    by (auto simp: s' wf_def noElection_def MIN_OPTIONS_def MAX_OPTIONS_def less_Suc_eq)
  have 3: "\<forall>h. allowedForDecryption s' h \<longleftrightarrow>
        (\<exists>e i. finalized (elections s' e) \<and> i < length (options (elections s' e)) \<and>
               tallies s' e i = h)"
  proof (intro allI iffI)
    fix h assume "allowedForDecryption s' h"
    then have "allowedForDecryption s h" by (simp add: s')
    then obtain e i where "finalized (elections s e)" "i < length (options (elections s e))"
      "tallies s e i = h"
      using wf_allowed [OF w] by blast
    then have "finalized (elections s' e) \<and> i < length (options (elections s' e)) \<and>
               tallies s' e i = h"
      using fin opt by (simp add: s')
    then show "\<exists>e i. finalized (elections s' e) \<and> i < length (options (elections s' e)) \<and>
               tallies s' e i = h" by blast
  next
    fix h assume "\<exists>e i. finalized (elections s' e) \<and> i < length (options (elections s' e)) \<and>
               tallies s' e i = h"
    then obtain e i where e: "finalized (elections s' e)" "i < length (options (elections s' e))"
      "tallies s' e i = h" by blast
    from e(1) have f: "finalized (elections s e)" by (simp add: fin)
    with e(2,3) opt have "i < length (options (elections s e))" "tallies s e i = h"
      by (simp_all add: s')
    with f have "allowedForDecryption s h" using wf_allowed [OF w] by blast
    then show "allowedForDecryption s' h" by (simp add: s')
  qed
  have 4: "\<forall>e i. finalized (elections s' e) \<and> i < length (options (elections s' e)) \<longrightarrow>
        isInitialized (tallies s' e i)"
  proof (intro allI impI)
    fix e i assume "finalized (elections s' e) \<and> i < length (options (elections s' e))"
    then have "finalized (elections s e)" "i < length (options (elections s e))"
      using fin opt by auto
    then show "isInitialized (tallies s' e i)"
      using wf_finalized_initialized [OF w] by (simp add: s')
  qed
  from 1 2 3 4 show ?thesis unfolding wf_def by blast
qed

lemma wf_vote:
  assumes w: "wf s" and v: "vote a now e ext pf s = Inr s'"
  shows "wf s'"
proof -
  from v have nf: "\<not> finalized (elections s e)"
    and el: "elections s' = elections s" and nx: "nextElectionId s' = nextElectionId s"
    and al: "allowedForDecryption s' = allowedForDecryption s"
    and ta: "\<And>e' i. e' \<noteq> e \<Longrightarrow> tallies s' e' i = tallies s e' i"
    and hv: "\<And>e' b. e' \<noteq> e \<Longrightarrow> hasVoted s' e' b = hasVoted s e' b"
    and ex: "name (elections s e) \<noteq> []"
    by (auto simp: vote_closed split: if_splits)
  from ex w have lt: "e < nextElectionId s" by (simp add: wf_exists)
  have ne: "finalized (elections s e') \<Longrightarrow> e' \<noteq> e" for e'
    using nf by auto
  have 1: "\<forall>e'. nextElectionId s' \<le> e' \<longrightarrow>
        elections s' e' = noElection \<and> (\<forall>i. tallies s' e' i = Uninitialized) \<and> (\<forall>a. \<not> hasVoted s' e' a)"
    using w lt by (auto simp: el nx ta hv wf_def)
  have 2: "\<forall>e'. e' < nextElectionId s' \<longrightarrow>
        name (elections s' e') \<noteq> [] \<and>
        MIN_OPTIONS \<le> length (options (elections s' e')) \<and>
        length (options (elections s' e')) \<le> MAX_OPTIONS \<and>
        [] \<notin> set (options (elections s' e'))"
    using w by (simp add: el nx wf_def)
  have 3: "\<forall>h. allowedForDecryption s' h \<longleftrightarrow>
        (\<exists>e' i. finalized (elections s' e') \<and> i < length (options (elections s' e')) \<and>
               tallies s' e' i = h)"
    unfolding al el wf_allowed [OF w]
    using ne ta by metis
  have 4: "\<forall>e' i. finalized (elections s' e') \<and> i < length (options (elections s' e')) \<longrightarrow>
        isInitialized (tallies s' e' i)"
    unfolding el using ne ta wf_finalized_initialized [OF w] by metis
  from 1 2 3 4 show ?thesis unfolding wf_def by blast
qed

lemma wf_finalizeElection:
  assumes w: "wf s" and f: "finalizeElection now e s = Inr s'"
  shows "wf s'"
proof -
  let ?k = "length (options (elections s e))"
  from f have ex: "name (elections s e) \<noteq> []" and nf: "\<not> finalized (elections s e)"
    by (auto simp: finalizeElection_closed split: if_splits)
  from ex w have lt: "e < nextElectionId s"
    by (simp add: wf_exists)
  from f ex nf have s': "s' = s\<lparr>tallies := (\<lambda>e' j. if e' = e \<and> j < ?k
                          then operand (tallies s e' j) else tallies s e' j),
                 allowedForDecryption := (\<lambda>h. allowedForDecryption s h \<or>
                    h \<in> set (map (\<lambda>j. operand (tallies s e j)) [0..<?k])),
                 elections := (elections s)(e := (elections s e)\<lparr>finalized := True\<rparr>)\<rparr>"
    by (auto simp: finalizeElection_closed wf_optionCount [OF w] split: if_splits)
  have opt: "options (elections s' e') = options (elections s e')" for e'
    by (simp add: s')
  have fin: "finalized (elections s' e') \<longleftrightarrow> e' = e \<or> finalized (elections s e')" for e'
    by (simp add: s')
  have ta: "tallies s' e' i = (if e' = e \<and> i < ?k then operand (tallies s e i) else tallies s e' i)" for e' i
    by (simp add: s')
  have al: "allowedForDecryption s' h \<longleftrightarrow>
      allowedForDecryption s h \<or> (\<exists>j<?k. h = operand (tallies s e j))" for h
    by (auto simp: s')
  have 1: "\<forall>e'. nextElectionId s' \<le> e' \<longrightarrow>
        elections s' e' = noElection \<and> (\<forall>i. tallies s' e' i = Uninitialized) \<and> (\<forall>a. \<not> hasVoted s' e' a)"
    using w lt by (auto simp: s' wf_def)
  have 2: "\<forall>e'. e' < nextElectionId s' \<longrightarrow>
        name (elections s' e') \<noteq> [] \<and>
        MIN_OPTIONS \<le> length (options (elections s' e')) \<and>
        length (options (elections s' e')) \<le> MAX_OPTIONS \<and>
        [] \<notin> set (options (elections s' e'))"
    using w by (simp add: s' wf_def)
  have 3: "\<forall>h. allowedForDecryption s' h \<longleftrightarrow>
        (\<exists>e' i. finalized (elections s' e') \<and> i < length (options (elections s' e')) \<and>
               tallies s' e' i = h)"
  proof (intro allI iffI)
    fix h assume "allowedForDecryption s' h"
    then consider "allowedForDecryption s h" | j where "j < ?k" "h = operand (tallies s e j)"
      using al by blast
    then show "\<exists>e' i. finalized (elections s' e') \<and> i < length (options (elections s' e')) \<and>
               tallies s' e' i = h"
    proof cases
      case 1
      then obtain e' i where o: "finalized (elections s e')" "i < length (options (elections s e'))"
        "tallies s e' i = h"
        using wf_allowed [OF w] by blast
      with nf have "e' \<noteq> e" by auto
      with o have "finalized (elections s' e') \<and> i < length (options (elections s' e')) \<and>
               tallies s' e' i = h"
        by (simp add: fin opt ta)
      then show ?thesis by blast
    next
      case 2
      then have "finalized (elections s' e) \<and> j < length (options (elections s' e)) \<and>
               tallies s' e j = h"
        by (simp add: fin opt ta)
      then show ?thesis by blast
    qed
  next
    fix h assume "\<exists>e' i. finalized (elections s' e') \<and> i < length (options (elections s' e')) \<and>
               tallies s' e' i = h"
    then obtain e' i where o: "finalized (elections s' e')" "i < length (options (elections s e'))"
      "tallies s' e' i = h"
      by (auto simp: opt)
    show "allowedForDecryption s' h"
    proof (cases "e' = e")
      case True
      with o have "i < ?k" "h = operand (tallies s e i)" by (simp_all add: ta)
      then show ?thesis using al by blast
    next
      case False
      with o have "finalized (elections s e')" "tallies s e' i = h" by (simp_all add: fin ta)
      with o(2) have "allowedForDecryption s h" using wf_allowed [OF w] by blast
      then show ?thesis using al by blast
    qed
  qed
  have 4: "\<forall>e' i. finalized (elections s' e') \<and> i < length (options (elections s' e')) \<longrightarrow>
        isInitialized (tallies s' e' i)"
  proof (intro allI impI)
    fix e' i assume a: "finalized (elections s' e') \<and> i < length (options (elections s' e'))"
    show "isInitialized (tallies s' e' i)"
    proof (cases "e' = e")
      case True
      with a show ?thesis by (simp add: ta opt)
    next
      case False
      with a show ?thesis using wf_finalized_initialized [OF w, of e' i] by (simp add: ta opt fin)
    qed
  qed
  from 1 2 3 4 show ?thesis unfolding wf_def by blast
qed

lemma wf_exec: "wf s \<Longrightarrow> wf (exec x s)"
proof -
  assume w: "wf s"
  obtain a now c where x: "x = (a, now, c)" by (cases x)
  show ?thesis
  proof (cases c)
    case (CreateElection nm opts et)
    with w x show ?thesis
      by (auto split: sum.splits dest: wf_createElection)
  next
    case (Vote e ext pf)
    with w x show ?thesis
      by (auto split: sum.splits dest: wf_vote)
  next
    case (FinalizeElection e)
    with w x show ?thesis
      by (auto split: sum.splits dest: wf_finalizeElection)
  qed
qed

lemma wf_run: "wf s \<Longrightarrow> wf (run s txs)"
  by (induction txs arbitrary: s) (simp_all add: wf_exec)

lemmas closed = createElection_closed vote_closed finalizeElection_closed

lemmas scenario = alice_def bob_def carol_def ballot_def opened_def polled_def concluded_def
  spoiled_def reused_def deployed_def noElection_def

lemma wf_reachable: "s = run deployed txs \<Longrightarrow> wf s"
  by (simp add: wf_run wf_deployed)

section \<open>Properties of the contract\<close>

subsection \<open>Which identifiers resolve\<close>

text \<open>
  C10. Every stored election has a non-empty name, and the lookup that \<open>vote\<close>,
  \<open>finalizeElection\<close> and the read operations share reports \<open>ElectionNotFound\<close>
  exactly for the identifiers at or above the election count: the identifiers
  \<open>0\<close> to \<open>getElectionCount s - 1\<close> resolve and no others do. A successful
  \<open>createElection\<close> returns the count and advances it by one.
\<close>

theorem lookup_resolves_created_ids:
  assumes "s = run deployed txs"
  shows "(e < getElectionCount s \<longrightarrow> name (elections s e) \<noteq> [] \<and> requireElection e s = Inr (elections s e)) \<and>
         (requireElection e s = Inl ElectionNotFound \<longleftrightarrow> getElectionCount s \<le> e) \<and>
         (vote a now e ext pf s = Inl ElectionNotFound \<longleftrightarrow> getElectionCount s \<le> e) \<and>
         (finalizeElection now e s = Inl ElectionNotFound \<longleftrightarrow> getElectionCount s \<le> e) \<and>
         (getElection e s = Inl ElectionNotFound \<longleftrightarrow> getElectionCount s \<le> e) \<and>
         (getEncryptedTally e i s = Inl ElectionNotFound \<longleftrightarrow> getElectionCount s \<le> e) \<and>
         (hasAddressVoted e a s = Inl ElectionNotFound \<longleftrightarrow> getElectionCount s \<le> e) \<and>
         (isTallyPublic e i s = Inl ElectionNotFound \<longleftrightarrow> getElectionCount s \<le> e) \<and>
         (\<forall>eid s'. createElection a now nm opts et s = Inr (eid, s') \<longrightarrow>
            eid = getElectionCount s \<and> getElectionCount s' = eid + 1)"
proof -
  have w: "wf s" using assms by (rule wf_reachable)
  have ex: "name (elections s e) = [] \<longleftrightarrow> getElectionCount s \<le> e"
    using wf_exists[OF w, of e] by (auto simp: getElectionCount_def)
  have req: "requireElection e s = (if getElectionCount s \<le> e then Inl ElectionNotFound else Inr (elections s e))"
    using ex by (simp add: requireElection_def)
  have 1: "e < getElectionCount s \<longrightarrow> name (elections s e) \<noteq> [] \<and> requireElection e s = Inr (elections s e)"
    using ex req by auto
  have 2: "requireElection e s = Inl ElectionNotFound \<longleftrightarrow> getElectionCount s \<le> e"
    by (simp add: req)
  have 3: "vote a now e ext pf s = Inl ElectionNotFound \<longleftrightarrow> getElectionCount s \<le> e"
    using ex by (simp add: vote_closed)
  have 4: "finalizeElection now e s = Inl ElectionNotFound \<longleftrightarrow> getElectionCount s \<le> e"
    using ex by (simp add: finalizeElection_closed)
  have 5: "getElection e s = Inl ElectionNotFound \<longleftrightarrow> getElectionCount s \<le> e"
    by (simp add: getElection_def req Let_def)
  have 6: "getEncryptedTally e i s = Inl ElectionNotFound \<longleftrightarrow> getElectionCount s \<le> e"
    by (simp add: getEncryptedTally_def requireValidOption_def req)
  have 7: "hasAddressVoted e a s = Inl ElectionNotFound \<longleftrightarrow> getElectionCount s \<le> e"
    by (simp add: hasAddressVoted_def req)
  have 8: "isTallyPublic e i s = Inl ElectionNotFound \<longleftrightarrow> getElectionCount s \<le> e"
    by (simp add: isTallyPublic_def requireValidOption_def req)
  have 9: "\<forall>eid s'. createElection a now nm opts et s = Inr (eid, s') \<longrightarrow>
            eid = getElectionCount s \<and> getElectionCount s' = eid + 1"
    by (auto simp: createElection_closed getElectionCount_def split: if_splits)
  from 1 2 3 4 5 6 7 8 9 show ?thesis by blast
qed

theorem lookup_resolves_created_ids_witness:
  "getElectionCount (run deployed opened) = 1 \<and>
   name (elections (run deployed opened) 0) = ''Referendum'' \<and>
   requireElection 0 (run deployed opened) = Inr (elections (run deployed opened) 0) \<and>
   requireElection 1 (run deployed opened) = Inl ElectionNotFound \<and>
   vote bob 20 1 (ballot bob 0) [1] (run deployed opened) = Inl ElectionNotFound \<and>
   map_sum id fst (createElection bob 20 ''Board'' [''A'', ''B'', ''C''] 90 (run deployed opened)) = Inr 1"
proof -
  have c: "getElectionCount (run deployed opened) = 1"
    by (simp add: scenario closed getElectionCount_def)
  have cr: "createElection bob 20 ''Board'' [''A'', ''B'', ''C''] 90 (run deployed opened) =
        Inr (1, exec (bob, 20, CreateElection ''Board'' [''A'', ''B'', ''C''] 90) (run deployed opened))"
    by (simp add: scenario closed)
  note t0 = lookup_resolves_created_ids
    [where s = "run deployed opened" and txs = opened and e = 0, OF refl]
  note t1 = lookup_resolves_created_ids
    [where s = "run deployed opened" and txs = opened and e = 1 and a = bob and now = 20
       and ext = "ballot bob 0" and pf = "[1]"
       and nm = "''Board''" and opts = "[''A'', ''B'', ''C'']" and et = 90, OF refl]
  from c cr t0 t1 show ?thesis
    by (simp add: scenario closed)
qed

subsection \<open>The checks of vote\<close>

text \<open>
  C3. \<open>vote\<close> checks its preconditions in this order: the election exists
  (\<open>ElectionNotFound\<close>), the current time is strictly before the closing time
  (\<open>ElectionClosed\<close>), the election is not finalized
  (\<open>ElectionAlreadyFinalized\<close>), the caller has no ballot record
  (\<open>AlreadyVoted\<close>). A failing call leaves the storage unchanged, and a call
  succeeds only when all four checks pass; it does succeed then, provided the proof
  of the encrypted choice validates.
\<close>

theorem vote_checks_in_order:
  "(name (elections s e) = [] \<longrightarrow> vote a now e ext pf s = Inl ElectionNotFound) \<and>
   (name (elections s e) \<noteq> [] \<and> \<not> now < unat (endTime (elections s e)) \<longrightarrow>
      vote a now e ext pf s = Inl ElectionClosed) \<and>
   (name (elections s e) \<noteq> [] \<and> now < unat (endTime (elections s e)) \<and> finalized (elections s e) \<longrightarrow>
      vote a now e ext pf s = Inl ElectionAlreadyFinalized) \<and>
   (name (elections s e) \<noteq> [] \<and> now < unat (endTime (elections s e)) \<and> \<not> finalized (elections s e) \<and>
    hasVoted s e a \<longrightarrow>
      vote a now e ext pf s = Inl AlreadyVoted) \<and>
   (\<forall>err. vote a now e ext pf s = Inl err \<longrightarrow> exec (a, now, Vote e ext pf) s = s) \<and>
   (\<forall>s'. vote a now e ext pf s = Inr s' \<longrightarrow>
      name (elections s e) \<noteq> [] \<and> now < unat (endTime (elections s e)) \<and>
      \<not> finalized (elections s e) \<and> \<not> hasVoted s e a) \<and>
   (name (elections s e) \<noteq> [] \<and> now < unat (endTime (elections s e)) \<and> \<not> finalized (elections s e) \<and>
    \<not> hasVoted s e a \<and> pf = ext_proof ext \<and> a = ext_user ext \<longrightarrow>
      (\<exists>s'. vote a now e ext pf s = Inr s'))"
  by (auto simp: vote_closed split: if_splits)

theorem vote_checks_in_order_witness:
  "vote alice 20 1 (ballot alice 1) [1] (run deployed polled) = Inl ElectionNotFound \<and>
   vote carol 70 0 (ballot carol 1) [1] (run deployed polled) = Inl ElectionClosed \<and>
   vote carol 60 0 (ballot carol 1) [1] (run deployed concluded) = Inl ElectionAlreadyFinalized \<and>
   vote alice 40 0 (ballot alice 0) [1] (run deployed polled) = Inl AlreadyVoted \<and>
   exec (alice, 40, Vote 0 (ballot alice 0) [1]) (run deployed polled) = run deployed polled \<and>
   vote carol 40 0 (ballot carol 0) [1] (run deployed polled) =
     Inr (exec (carol, 40, Vote 0 (ballot carol 0) [1]) (run deployed polled)) \<and>
   \<not> hasVoted (run deployed polled) 0 carol"
proof -
  note t1 = vote_checks_in_order [where s = "run deployed polled" and e = 1 and a = alice
      and now = 20 and ext = "ballot alice 1" and pf = "[1]"]
  note t2 = vote_checks_in_order [where s = "run deployed polled" and e = 0 and a = carol
      and now = 70 and ext = "ballot carol 1" and pf = "[1]"]
  note t3 = vote_checks_in_order [where s = "run deployed concluded" and e = 0 and a = carol
      and now = 60 and ext = "ballot carol 1" and pf = "[1]"]
  note t4 = vote_checks_in_order [where s = "run deployed polled" and e = 0 and a = alice
      and now = 40 and ext = "ballot alice 0" and pf = "[1]"]
  note t5 = vote_checks_in_order [where s = "run deployed polled" and e = 0 and a = carol
      and now = 40 and ext = "ballot carol 0" and pf = "[1]"]
  have h1: "name (elections (run deployed polled) 1) = []"
    by (simp add: scenario closed)
  have h2: "name (elections (run deployed polled) 0) \<noteq> [] \<and>
            unat (endTime (elections (run deployed polled) 0)) = 70 \<and>
            \<not> finalized (elections (run deployed polled) 0) \<and>
            hasVoted (run deployed polled) 0 alice \<and> \<not> hasVoted (run deployed polled) 0 carol"
    by (simp add: scenario closed)
  have h3: "name (elections (run deployed concluded) 0) \<noteq> [] \<and>
            unat (endTime (elections (run deployed concluded) 0)) = 70 \<and>
            finalized (elections (run deployed concluded) 0)"
    by (simp add: scenario closed)
  have h5: "vote carol 40 0 (ballot carol 0) [1] (run deployed polled) =
     Inr (exec (carol, 40, Vote 0 (ballot carol 0) [1]) (run deployed polled))"
    using h2 by (simp add: vote_closed ballot_def)
  from t1 h1 have r1: "vote alice 20 1 (ballot alice 1) [1] (run deployed polled) = Inl ElectionNotFound"
    by blast
  from t2 h2 have r2: "vote carol 70 0 (ballot carol 1) [1] (run deployed polled) = Inl ElectionClosed"
    by simp
  from t3 h3 have r3: "vote carol 60 0 (ballot carol 1) [1] (run deployed concluded) = Inl ElectionAlreadyFinalized"
    by simp
  from t4 h2 have r4: "vote alice 40 0 (ballot alice 0) [1] (run deployed polled) = Inl AlreadyVoted"
    by simp
  from t4 r4 have r5: "exec (alice, 40, Vote 0 (ballot alice 0) [1]) (run deployed polled) = run deployed polled"
    by blast
  from t5 h5 have r6: "\<not> hasVoted (run deployed polled) 0 carol"
    by blast
  from r1 r2 r3 r4 r5 r6 h5 show ?thesis by blast
qed

subsection \<open>The checks of createElection\<close>

text \<open>
  C4. \<open>createElection\<close> fails whenever the number of labels is outside 2..8, the
  name or a label is empty, or the closing time is not strictly greater than the
  current time. The error it fails with is one whose condition holds:
  \<open>InvalidOptionCount\<close> only for a label count outside 2..8, \<open>EmptyOption\<close> (the
  spec's \<open>EmptyLabel\<close>) only for an empty name or label, \<open>InvalidEndTime\<close> only
  for a closing time that is not in the future, and an input that violates a single
  condition gets that condition's error. The only other failure is the checked
  increment of an exhausted identifier counter. A failing call changes no state, so
  no identifier is consumed. When every check passes the call returns the election
  count, an identifier that did not resolve before, stores the metadata under it with
  the finalized flag unset, advances the count by one and changes nothing else.
\<close>

theorem createElection_validation:
  assumes "s = run deployed txs"
  shows
   "((length opts < MIN_OPTIONS \<or> MAX_OPTIONS < length opts) \<or> (nm = [] \<or> [] \<in> set opts) \<or>
       unat et \<le> now \<longrightarrow>
       (\<exists>err. createElection a now nm opts et s = Inl err)) \<and>
    (createElection a now nm opts et s = Inl InvalidOptionCount \<longrightarrow>
       length opts < MIN_OPTIONS \<or> MAX_OPTIONS < length opts) \<and>
    (createElection a now nm opts et s = Inl EmptyOption \<longrightarrow> nm = [] \<or> [] \<in> set opts) \<and>
    (createElection a now nm opts et s = Inl InvalidEndTime \<longrightarrow> unat et \<le> now) \<and>
    (\<forall>err. createElection a now nm opts et s = Inl err \<longrightarrow>
       err = InvalidOptionCount \<or> err = EmptyOption \<or> err = InvalidEndTime \<or>
       (err = Panic \<and> 2 ^ 256 \<le> getElectionCount s + 1)) \<and>
    ((length opts < MIN_OPTIONS \<or> MAX_OPTIONS < length opts) \<and> nm \<noteq> [] \<and> [] \<notin> set opts \<and>
     now < unat et \<longrightarrow>
       createElection a now nm opts et s = Inl InvalidOptionCount) \<and>
    ((nm = [] \<or> [] \<in> set opts) \<and> MIN_OPTIONS \<le> length opts \<and> length opts \<le> MAX_OPTIONS \<and>
     now < unat et \<and> getElectionCount s + 1 < 2 ^ 256 \<longrightarrow>
       createElection a now nm opts et s = Inl EmptyOption) \<and>
    (unat et \<le> now \<and> MIN_OPTIONS \<le> length opts \<and> length opts \<le> MAX_OPTIONS \<and>
     nm \<noteq> [] \<and> [] \<notin> set opts \<longrightarrow>
       createElection a now nm opts et s = Inl InvalidEndTime) \<and>
    (\<forall>err. createElection a now nm opts et s = Inl err \<longrightarrow>
       exec (a, now, CreateElection nm opts et) s = s) \<and>
    (nm \<noteq> [] \<and> now < unat et \<and> MIN_OPTIONS \<le> length opts \<and> length opts \<le> MAX_OPTIONS \<and>
     getElectionCount s + 1 < 2 ^ 256 \<and> [] \<notin> set opts \<longrightarrow>
       (\<exists>s'. createElection a now nm opts et s = Inr (getElectionCount s, s') \<and>
             requireElection (getElectionCount s) s = Inl ElectionNotFound \<and>
             elections s' (getElectionCount s) =
               \<lparr>name = nm, endTime = et, finalized = False, creator = a, options = opts\<rparr> \<and>
             getElectionCount s' = getElectionCount s + 1 \<and>
             (\<forall>e. e \<noteq> getElectionCount s \<longrightarrow> elections s' e = elections s e) \<and>
             tallies s' = tallies s \<and> hasVoted s' = hasVoted s \<and>
             allowedForDecryption s' = allowedForDecryption s))"
proof -
  have w: "wf s" using assms by (rule wf_reachable)
  then have fresh: "elections s (nextElectionId s) = noElection"
    by (simp add: wf_def)
  note defs = createElection_closed MIN_OPTIONS_def MAX_OPTIONS_def getElectionCount_def
  have 1: "(length opts < MIN_OPTIONS \<or> MAX_OPTIONS < length opts) \<or> (nm = [] \<or> [] \<in> set opts) \<or>
       unat et \<le> now \<longrightarrow>
       (\<exists>err. createElection a now nm opts et s = Inl err)"
    by (auto simp: defs)
  have 2: "createElection a now nm opts et s = Inl InvalidOptionCount \<longrightarrow>
       length opts < MIN_OPTIONS \<or> MAX_OPTIONS < length opts"
    by (auto simp: defs split: if_splits)
  have 3: "createElection a now nm opts et s = Inl EmptyOption \<longrightarrow> nm = [] \<or> [] \<in> set opts"
    by (auto simp: defs split: if_splits)
  have 4: "createElection a now nm opts et s = Inl InvalidEndTime \<longrightarrow> unat et \<le> now"
    by (auto simp: defs split: if_splits)
  have 5: "\<forall>err. createElection a now nm opts et s = Inl err \<longrightarrow>
       err = InvalidOptionCount \<or> err = EmptyOption \<or> err = InvalidEndTime \<or>
       (err = Panic \<and> 2 ^ 256 \<le> getElectionCount s + 1)"
    by (auto simp: defs split: if_splits)
  have 6: "(length opts < MIN_OPTIONS \<or> MAX_OPTIONS < length opts) \<and> nm \<noteq> [] \<and> [] \<notin> set opts \<and>
     now < unat et \<longrightarrow>
       createElection a now nm opts et s = Inl InvalidOptionCount"
    by (auto simp: defs)
  have 7: "(nm = [] \<or> [] \<in> set opts) \<and> MIN_OPTIONS \<le> length opts \<and> length opts \<le> MAX_OPTIONS \<and>
     now < unat et \<and> getElectionCount s + 1 < 2 ^ 256 \<longrightarrow>
       createElection a now nm opts et s = Inl EmptyOption"
    by (auto simp: defs)
  have 8: "unat et \<le> now \<and> MIN_OPTIONS \<le> length opts \<and> length opts \<le> MAX_OPTIONS \<and>
     nm \<noteq> [] \<and> [] \<notin> set opts \<longrightarrow>
       createElection a now nm opts et s = Inl InvalidEndTime"
    by (auto simp: defs)
  have 9: "\<forall>err. createElection a now nm opts et s = Inl err \<longrightarrow>
       exec (a, now, CreateElection nm opts et) s = s"
    by simp
  have 10: "nm \<noteq> [] \<and> now < unat et \<and> MIN_OPTIONS \<le> length opts \<and> length opts \<le> MAX_OPTIONS \<and>
     getElectionCount s + 1 < 2 ^ 256 \<and> [] \<notin> set opts \<longrightarrow>
       (\<exists>s'. createElection a now nm opts et s = Inr (getElectionCount s, s') \<and>
             requireElection (getElectionCount s) s = Inl ElectionNotFound \<and>
             elections s' (getElectionCount s) =
               \<lparr>name = nm, endTime = et, finalized = False, creator = a, options = opts\<rparr> \<and>
             getElectionCount s' = getElectionCount s + 1 \<and>
             (\<forall>e. e \<noteq> getElectionCount s \<longrightarrow> elections s' e = elections s e) \<and>
             tallies s' = tallies s \<and> hasVoted s' = hasVoted s \<and>
             allowedForDecryption s' = allowedForDecryption s)"
    using fresh
    by (auto simp: defs requireElection_def noElection_def)
  from 1 2 3 4 5 6 7 8 9 10 show ?thesis by (intro conjI)
qed

theorem createElection_validation_witness:
  "createElection bob 20 ''Board'' [''A''] 90 (run deployed opened) = Inl InvalidOptionCount \<and>
   createElection bob 20 [] [''A'', ''B''] 90 (run deployed opened) = Inl EmptyOption \<and>
   createElection bob 20 ''Board'' [''A'', []] 90 (run deployed opened) = Inl EmptyOption \<and>
   createElection bob 20 ''Board'' [''A'', ''B''] 20 (run deployed opened) = Inl InvalidEndTime \<and>
   isl (createElection bob 20 [] [''A''] 20 (run deployed opened)) \<and>
   exec (bob, 20, CreateElection ''Board'' [''A'', []] 90) (run deployed opened) = run deployed opened \<and>
   createElection bob 20 ''Board'' [''A'', ''B''] 90 (run deployed opened) =
     Inr (1, exec (bob, 20, CreateElection ''Board'' [''A'', ''B''] 90) (run deployed opened)) \<and>
   elections (exec (bob, 20, CreateElection ''Board'' [''A'', ''B''] 90) (run deployed opened)) 1 =
     \<lparr>name = ''Board'', endTime = 90, finalized = False, creator = bob, options = [''A'', ''B'']\<rparr>"
proof -
  let ?s = "run deployed opened"
  have n: "nextElectionId ?s = 1" "getElectionCount ?s = 1"
    by (simp_all add: scenario closed getElectionCount_def)
  note t = createElection_validation [where s = ?s and txs = opened and a = bob and now = 20, OF refl]
  have r1: "createElection bob 20 ''Board'' [''A''] 90 ?s = Inl InvalidOptionCount"
    using t [where nm = "''Board''" and opts = "[''A'']" and et = 90] by (simp add: MIN_OPTIONS_def)
  have r2: "createElection bob 20 [] [''A'', ''B''] 90 ?s = Inl EmptyOption"
    using t [where nm = "[]" and opts = "[''A'', ''B'']" and et = 90] n
    by (simp add: MIN_OPTIONS_def MAX_OPTIONS_def)
  have r3: "createElection bob 20 ''Board'' [''A'', []] 90 ?s = Inl EmptyOption"
    using t [where nm = "''Board''" and opts = "[''A'', []]" and et = 90] n
    by (simp add: MIN_OPTIONS_def MAX_OPTIONS_def)
  have r4: "createElection bob 20 ''Board'' [''A'', ''B''] 20 ?s = Inl InvalidEndTime"
    using t [where nm = "''Board''" and opts = "[''A'', ''B'']" and et = 20]
    by (simp add: MIN_OPTIONS_def MAX_OPTIONS_def)
  have "\<exists>err. createElection bob 20 [] [''A''] 20 ?s = Inl err"
    using t [where nm = "[]" and opts = "[''A'']" and et = 20] by blast
  then have r5: "isl (createElection bob 20 [] [''A''] 20 ?s)"
    by auto
  have r6: "exec (bob, 20, CreateElection ''Board'' [''A'', []] 90) ?s = ?s"
    using t [where nm = "''Board''" and opts = "[''A'', []]" and et = 90] r3 by blast
  have pre: "''Board'' \<noteq> [] \<and> 20 < unat (90 :: 64 word) \<and> MIN_OPTIONS \<le> length [''A'', ''B''] \<and>
     length [''A'', ''B''] \<le> MAX_OPTIONS \<and> getElectionCount ?s + 1 < 2 ^ 256 \<and> [] \<notin> set [''A'', ''B'']"
    using n by (simp add: MIN_OPTIONS_def MAX_OPTIONS_def)
  from t [where nm = "''Board''" and opts = "[''A'', ''B'']" and et = 90] pre
  obtain s' where "createElection bob 20 ''Board'' [''A'', ''B''] 90 ?s = Inr (getElectionCount ?s, s')"
    and "elections s' (getElectionCount ?s) =
               \<lparr>name = ''Board'', endTime = 90, finalized = False, creator = bob, options = [''A'', ''B'']\<rparr>"
    by blast
  then have r7: "createElection bob 20 ''Board'' [''A'', ''B''] 90 ?s =
     Inr (1, exec (bob, 20, CreateElection ''Board'' [''A'', ''B''] 90) ?s) \<and>
   elections (exec (bob, 20, CreateElection ''Board'' [''A'', ''B''] 90) ?s) 1 =
     \<lparr>name = ''Board'', endTime = 90, finalized = False, creator = bob, options = [''A'', ''B'']\<rparr>"
    by (simp add: n)
  from r1 r2 r3 r4 r5 r6 r7 show ?thesis by blast
qed

subsection \<open>Election metadata is immutable\<close>

lemma exec_metadata:
  assumes "wf s" "name (elections s e) \<noteq> []"
  shows "elections (exec x s) e = (elections s e)\<lparr>finalized := finalized (elections (exec x s) e)\<rparr>"
proof -
  obtain a now c where x: "x = (a, now, c)" by (cases x)
  from assms have lt: "e < nextElectionId s" by (simp add: wf_exists)
  show ?thesis
  proof (cases c)
    case (CreateElection nm opts et)
    with x lt show ?thesis by (simp add: createElection_closed)
  next
    case (Vote e' ext pf)
    with x show ?thesis by (simp add: vote_closed)
  next
    case (FinalizeElection e')
    with x show ?thesis by (simp add: finalizeElection_closed)
  qed
qed

lemma run_metadata:
  assumes "wf s" "name (elections s e) \<noteq> []"
  shows "elections (run s txs) e = (elections s e)\<lparr>finalized := finalized (elections (run s txs) e)\<rparr>"
  using assms
proof (induction txs arbitrary: s)
  case Nil
  then show ?case by simp
next
  case (Cons x txs)
  have step: "elections (exec x s) e = (elections s e)\<lparr>finalized := finalized (elections (exec x s) e)\<rparr>"
    using Cons.prems by (rule exec_metadata)
  have nm: "name (elections (exec x s) e) \<noteq> []"
    using Cons.prems(2) by (subst step) simp
  have "elections (run (exec x s) txs) e =
          (elections (exec x s) e)\<lparr>finalized := finalized (elections (run (exec x s) txs) e)\<rparr>"
    using Cons.IH [OF wf_exec [OF Cons.prems(1)] nm] .
  also have "\<dots> = (elections s e)\<lparr>finalized := finalized (elections (run (exec x s) txs) e)\<rparr>"
    by (subst step) simp
  finally show ?case by simp
qed

text \<open>
  C8. Once an election exists, no sequence of later transactions changes its name,
  closing time, creator or option list, and it never ceases to exist: its metadata
  differs from the created one in the finalized flag at most. A successful \<open>vote\<close>
  changes no election metadata at all, and a successful \<open>finalizeElection\<close> changes
  nothing but the finalized flag of its election.
\<close>

theorem metadata_immutable:
  assumes "s = run deployed txs" "name (elections s e) \<noteq> []"
  shows "name (elections (run s later) e) \<noteq> [] \<and>
         name (elections (run s later) e) = name (elections s e) \<and>
         endTime (elections (run s later) e) = endTime (elections s e) \<and>
         creator (elections (run s later) e) = creator (elections s e) \<and>
         options (elections (run s later) e) = options (elections s e) \<and>
         (\<exists>f. elections (run s later) e = (elections s e)\<lparr>finalized := f\<rparr>) \<and>
         (\<forall>s'. vote a now e' ext pf s = Inr s' \<longrightarrow> elections s' = elections s) \<and>
         (\<forall>s'. finalizeElection now e' s = Inr s' \<longrightarrow>
            elections s' = (elections s)(e' := (elections s e')\<lparr>finalized := True\<rparr>))"
proof -
  have w: "wf s" using assms(1) by (rule wf_reachable)
  have m: "elections (run s later) e =
           (elections s e)\<lparr>finalized := finalized (elections (run s later) e)\<rparr>"
    using w assms(2) by (rule run_metadata)
  have 1: "name (elections (run s later) e) = name (elections s e)"
    by (subst m) simp
  have 2: "endTime (elections (run s later) e) = endTime (elections s e)"
    by (subst m) simp
  have 3: "creator (elections (run s later) e) = creator (elections s e)"
    by (subst m) simp
  have 4: "options (elections (run s later) e) = options (elections s e)"
    by (subst m) simp
  have 5: "\<forall>s'. vote a now e' ext pf s = Inr s' \<longrightarrow> elections s' = elections s"
    by (auto simp: vote_closed split: if_splits)
  have 6: "\<forall>s'. finalizeElection now e' s = Inr s' \<longrightarrow>
            elections s' = (elections s)(e' := (elections s e')\<lparr>finalized := True\<rparr>)"
    by (auto simp: finalizeElection_closed split: if_splits)
  from m have 7: "\<exists>f. elections (run s later) e = (elections s e)\<lparr>finalized := f\<rparr>" ..
  from 1 assms(2) have 0: "name (elections (run s later) e) \<noteq> []" by simp
  from 0 1 2 3 4 7 5 6 show ?thesis by blast
qed

theorem metadata_immutable_witness:
  "name (elections (run deployed opened) 0) = ''Referendum'' \<and>
   name (elections (run (run deployed opened) (drop 1 concluded)) 0) = ''Referendum'' \<and>
   endTime (elections (run (run deployed opened) (drop 1 concluded)) 0) = 70 \<and>
   creator (elections (run (run deployed opened) (drop 1 concluded)) 0) = alice \<and>
   options (elections (run (run deployed opened) (drop 1 concluded)) 0) = [''Yes'', ''No''] \<and>
   finalized (elections (run (run deployed opened) (drop 1 concluded)) 0) \<and>
   elections (exec (carol, 40, Vote 0 (ballot carol 0) [1]) (run deployed opened)) =
     elections (run deployed opened)"
proof -
  let ?s = "run deployed opened"
  have e: "elections ?s 0 =
      \<lparr>name = ''Referendum'', endTime = 70, finalized = False, creator = alice, options = [''Yes'', ''No'']\<rparr>"
    by (simp add: scenario closed)
  then have h: "name (elections ?s 0) \<noteq> []" by simp
  have f: "finalized (elections (run ?s (drop 1 concluded)) 0)"
    by (simp add: scenario closed)
  have v: "vote carol 40 0 (ballot carol 0) [1] ?s = Inr (exec (carol, 40, Vote 0 (ballot carol 0) [1]) ?s)"
    by (simp add: scenario closed)
  note t = metadata_immutable [where s = ?s and txs = opened and e = 0 and later = "drop 1 concluded"
      and a = carol and now = 40 and e' = 0 and ext = "ballot carol 0" and pf = "[1]", OF refl h]
  from t have "name (elections (run ?s (drop 1 concluded)) 0) = name (elections ?s 0) \<and>
         endTime (elections (run ?s (drop 1 concluded)) 0) = endTime (elections ?s 0) \<and>
         creator (elections (run ?s (drop 1 concluded)) 0) = creator (elections ?s 0) \<and>
         options (elections (run ?s (drop 1 concluded)) 0) = options (elections ?s 0)"
    by blast
  moreover from t v have "elections (exec (carol, 40, Vote 0 (ballot carol 0) [1]) ?s) = elections ?s"
    by blast
  ultimately show ?thesis using e f by simp
qed

subsection \<open>The finalized flag and the revealability of tallies\<close>

lemma exec_finalized: "finalized (elections s e) \<Longrightarrow> finalized (elections (exec x s) e)"
proof -
  assume f: "finalized (elections s e)"
  obtain a now c where x: "x = (a, now, c)" by (cases x)
  show ?thesis
  proof (cases c)
    case (CreateElection nm opts et)
    with x f show ?thesis by (auto simp: createElection_closed)
  next
    case (Vote e' ext pf)
    with x f show ?thesis by (simp add: vote_closed)
  next
    case (FinalizeElection e')
    with x f show ?thesis by (simp add: finalizeElection_closed)
  qed
qed

lemma run_finalized: "finalized (elections s e) \<Longrightarrow> finalized (elections (run s txs) e)"
  by (induction txs arbitrary: s) (simp_all add: exec_finalized)

text \<open>
  What \<open>isTallyPublic\<close> answers in a state reached from deployment: whether some
  finalized election holds the very same handle in one of its option accumulators.
  So it is true for every valid option of a finalized election, false as long as no
  election at all is finalized, and false for an accumulator that was never written.
\<close>

lemma isTallyPublic_shared_handle:
  assumes "s = run deployed txs" "name (elections s e) \<noteq> []" "i < length (options (elections s e))"
  shows "isTallyPublic e i s =
         Inr (\<exists>e' i'. finalized (elections s e') \<and> i' < length (options (elections s e')) \<and>
                      tallies s e' i' = tallies s e i)"
  using assms wf_allowed [OF wf_reachable [OF assms(1)], of "tallies s e i"]
  by (simp add: isTallyPublic_def requireValidOption_def requireElection_def
      isPubliclyDecryptable_def)

lemma isTallyPublic_finalized:
  assumes "s = run deployed txs" "finalized (elections s e)" "i < length (options (elections s e))"
  shows "isTallyPublic e i s = Inr True"
proof -
  have w: "wf s" using assms(1) by (rule wf_reachable)
  from assms(2) have "name (elections s e) \<noteq> []"
    using w wf_exists [OF w, of e] by (auto simp: wf_def noElection_def intro: ccontr)
  from isTallyPublic_shared_handle [OF assms(1) this assms(3)] assms(2,3)
  show ?thesis by auto
qed

lemma isTallyPublic_none_finalized:
  assumes "s = run deployed txs" "name (elections s e) \<noteq> []" "i < length (options (elections s e))"
    and "\<forall>e'. \<not> finalized (elections s e')"
  shows "isTallyPublic e i s = Inr False"
  using isTallyPublic_shared_handle [OF assms(1-3)] assms(4) by simp

lemma isTallyPublic_unwritten:
  assumes "s = run deployed txs" "name (elections s e) \<noteq> []" "i < length (options (elections s e))"
    and "tallies s e i = Uninitialized"
  shows "isTallyPublic e i s = Inr False"
proof -
  have w: "wf s" using assms(1) by (rule wf_reachable)
  have "\<not> (\<exists>e' i'. finalized (elections s e') \<and> i' < length (options (elections s e')) \<and>
                      tallies s e' i' = Uninitialized)"
    using wf_finalized_initialized [OF w] by force
  with isTallyPublic_shared_handle [OF assms(1-3)] assms(4) show ?thesis by simp
qed

text \<open>
  C6 fails on the code. In the run \<open>reused\<close> Alice submits one encrypted choice,
  with its proof, as the first vote of two open elections; each election computes its
  accumulators from the same operands and so holds the same handles. Finalizing the
  referendum at its closing time 70 allows those handles for public decryption, and
  \<open>isTallyPublic\<close> then answers true for both options of the second election, which
  closes at 90 and is not finalized; its tallies can be decrypted by anyone.
\<close>

theorem tally_public_before_finalization:
  "chronological 0 reused \<and> clock 0 reused = 70 \<and>
   getElectionCount (run deployed reused) = 2 \<and>
   name (elections (run deployed reused) 1) = ''Board'' \<and>
   options (elections (run deployed reused) 1) = [''Ann'', ''Ben''] \<and>
   unat (endTime (elections (run deployed reused) 1)) = 90 \<and>
   finalized (elections (run deployed reused) 0) \<and>
   \<not> finalized (elections (run deployed reused) 1) \<and>
   hasVoted (run deployed reused) 1 alice \<and>
   tallies (run deployed reused) 1 0 = tallies (run deployed reused) 0 0 \<and>
   tallies (run deployed reused) 1 1 = tallies (run deployed reused) 0 1 \<and>
   isTallyPublic 1 0 (run deployed reused) = Inr True \<and>
   isTallyPublic 1 1 (run deployed reused) = Inr True \<and>
   publicDecrypt (allowedForDecryption (run deployed reused)) (tallies (run deployed reused) 1 0) = Some 0 \<and>
   publicDecrypt (allowedForDecryption (run deployed reused)) (tallies (run deployed reused) 1 1) = Some 1"
proof -
  let ?s = "run deployed reused"
  have 1: "chronological 0 reused" "clock 0 reused = 70"
    by (simp_all add: scenario)
  have 2: "getElectionCount ?s = 2"
    by (simp add: scenario closed getElectionCount_def)
  have 3: "elections ?s 1 =
      \<lparr>name = ''Board'', endTime = 90, finalized = False, creator = bob, options = [''Ann'', ''Ben'']\<rparr>"
    "finalized (elections ?s 0)" "hasVoted ?s 1 alice"
    by (simp_all add: scenario closed)
  have t: "tallies ?s 1 0 = tallies ?s 0 0" "tallies ?s 1 1 = tallies ?s 0 1"
    by (simp_all add: scenario closed add_def select_def eq_def asEuint32_def operand_def)
  have a: "allowedForDecryption ?s (tallies ?s 0 0)" "allowedForDecryption ?s (tallies ?s 0 1)"
    by (simp_all add: scenario closed add_def select_def eq_def asEuint32_def operand_def)
  have p: "plaintext (tallies ?s 0 0) = 0" "plaintext (tallies ?s 0 1) = 1"
    by (simp_all add: scenario closed add_def select_def eq_def asEuint32_def operand_def)
  from 3 t a have 4: "isTallyPublic 1 0 ?s = Inr True" "isTallyPublic 1 1 ?s = Inr True"
    by (simp_all add: isTallyPublic_def requireValidOption_def requireElection_def
        isPubliclyDecryptable_def)
  from t a p have 5: "publicDecrypt (allowedForDecryption ?s) (tallies ?s 1 0) = Some 0"
    "publicDecrypt (allowedForDecryption ?s) (tallies ?s 1 1) = Some 1"
    by (simp_all add: publicDecrypt_def isPubliclyDecryptable_def)
  from 1 2 3 t 4 5 show ?thesis by simp
qed

subsection \<open>Finalization happens after closing\<close>

lemma closedBy_exec:
  assumes "wf s" "closedBy s t" "t \<le> now"
  shows "closedBy (exec (a, now, c) s) now"
proof (cases c)
  case (CreateElection nm opts et)
  from assms(1) have "\<not> finalized (elections s (nextElectionId s))"
    by (simp add: wf_def noElection_def)
  with assms(2,3) CreateElection show ?thesis
    by (auto simp: closedBy_def createElection_closed intro: order_trans)
next
  case (Vote e ext pf)
  with assms(2,3) show ?thesis
    by (auto simp: closedBy_def vote_closed intro: order_trans)
next
  case (FinalizeElection e)
  with assms(2,3) show ?thesis
    by (auto simp: closedBy_def finalizeElection_closed intro: order_trans)
qed

lemma closedBy_run:
  assumes "wf s" "closedBy s t" "chronological t txs"
  shows "closedBy (run s txs) (clock t txs)"
  using assms
proof (induction txs arbitrary: s t)
  case Nil
  then show ?case by simp
next
  case (Cons x txs)
  obtain a now c where x: "x = (a, now, c)" by (cases x)
  with Cons.prems have le: "t \<le> now" and ch: "chronological now txs" by simp_all
  have "closedBy (exec (a, now, c) s) now"
    using Cons.prems(1,2) le by (rule closedBy_exec)
  from Cons.IH [OF wf_exec [OF Cons.prems(1)] this ch] show ?case
    by (simp add: x)
qed

lemma closedBy_deployed: "closedBy deployed 0"
  by (simp add: closedBy_def deployed_def noElection_def)

lemma closedBy_reachable:
  assumes "chronological 0 txs" "s = run deployed txs" "clock 0 txs \<le> now"
  shows "finalized (elections s e) \<Longrightarrow> unat (endTime (elections s e)) \<le> now"
  using closedBy_run [OF wf_deployed closedBy_deployed assms(1)] assms(2,3)
  by (auto simp: closedBy_def intro: order_trans)

text \<open>
  C7. When block timestamps never decrease, every state reached from deployment has
  finalized only elections whose closing time is at or before the current time.
  Consequently \<open>vote\<close> never fails with \<open>ElectionAlreadyFinalized\<close>: whenever its
  closing-time check passes, the election is not finalized.
\<close>

theorem finalized_only_after_closing:
  assumes "chronological 0 txs" "s = run deployed txs" "clock 0 txs \<le> now"
  shows "(finalized (elections s e) \<longrightarrow> unat (endTime (elections s e)) \<le> now) \<and>
         vote a now e ext pf s \<noteq> Inl ElectionAlreadyFinalized \<and>
         (now < unat (endTime (elections s e)) \<longrightarrow> \<not> finalized (elections s e))"
proof -
  have c: "finalized (elections s e) \<longrightarrow> unat (endTime (elections s e)) \<le> now"
    using closedBy_reachable [OF assms] by blast
  then show ?thesis
    by (auto simp: vote_closed)
qed

theorem finalized_only_after_closing_witness:
  "chronological 0 concluded \<and> clock 0 concluded \<le> 80 \<and>
   finalized (elections (run deployed concluded) 0) \<and>
   unat (endTime (elections (run deployed concluded) 0)) \<le> 80 \<and>
   vote bob 80 0 (ballot bob 0) [1] (run deployed concluded) \<noteq> Inl ElectionAlreadyFinalized \<and>
   chronological 0 polled \<and> clock 0 polled \<le> 40 \<and>
   40 < unat (endTime (elections (run deployed polled) 0)) \<and>
   \<not> finalized (elections (run deployed polled) 0)"
proof -
  have h1: "chronological 0 concluded" and h2: "clock 0 concluded \<le> 80"
    by (simp_all add: scenario)
  have h3: "chronological 0 polled" and h4: "clock 0 polled \<le> 40"
    by (simp_all add: scenario)
  have f: "finalized (elections (run deployed concluded) 0)"
    by (simp add: scenario closed)
  have o: "40 < unat (endTime (elections (run deployed polled) 0))"
    by (simp add: scenario closed)
  note tc = finalized_only_after_closing [OF h1 refl h2, where e = 0 and a = bob and ext = "ballot bob 0" and pf = "[1]"]
  note tp = finalized_only_after_closing [OF h3 refl h4, where e = 0]
  from h1 h2 h3 h4 f o tc tp show ?thesis by blast
qed

subsection \<open>finalizeElection\<close>

text \<open>
  C5. \<open>finalizeElection\<close>, for any caller, fails with \<open>ElectionNotFound\<close> if the
  election does not exist, with \<open>ElectionOngoing\<close> if the current time is strictly
  before the closing time, and with \<open>ElectionAlreadyFinalized\<close> if the election is
  finalized; a failing call changes nothing. Otherwise it succeeds in one step: every
  option's accumulator, taken as encrypted zero when it was never written, is made
  publicly revealable with its plaintext unchanged, and the finalized flag is set. The
  states are those reached from deployment under non-decreasing block timestamps.
\<close>

theorem finalizeElection_spec:
  assumes "chronological 0 txs" "s = run deployed txs" "clock 0 txs \<le> now"
  shows "(name (elections s e) = [] \<longrightarrow> finalizeElection now e s = Inl ElectionNotFound) \<and>
         (now < unat (endTime (elections s e)) \<longrightarrow> finalizeElection now e s = Inl ElectionOngoing) \<and>
         (finalized (elections s e) \<longrightarrow> finalizeElection now e s = Inl ElectionAlreadyFinalized) \<and>
         (\<forall>err. finalizeElection now e s = Inl err \<longrightarrow> exec (a, now, FinalizeElection e) s = s) \<and>
         (name (elections s e) \<noteq> [] \<and> unat (endTime (elections s e)) \<le> now \<and> \<not> finalized (elections s e) \<longrightarrow>
            (\<exists>s'. finalizeElection now e s = Inr s' \<and> exec (a, now, FinalizeElection e) s = s' \<and>
               finalized (elections s' e) \<and>
               (\<forall>i. i < length (options (elections s e)) \<longrightarrow>
                  tallies s' e i =
                    (if isInitialized (tallies s e i) then tallies s e i else asEuint32 0) \<and>
                  isPubliclyDecryptable (allowedForDecryption s') (tallies s' e i) \<and>
                  isTallyPublic e i s' = Inr True \<and>
                  publicDecrypt (allowedForDecryption s') (tallies s' e i) =
                    Some (plaintext (tallies s e i)) \<and>
                  plaintext (tallies s' e i) = plaintext (tallies s e i))))"
proof -
  have w: "wf s" using assms(2) by (rule wf_reachable)
  have c: "finalized (elections s e) \<longrightarrow> unat (endTime (elections s e)) \<le> now"
    using closedBy_reachable [OF assms] by blast
  have z: "name (elections s e) = [] \<longrightarrow> elections s e = noElection"
    using w wf_exists [OF w, of e] by (auto simp: wf_def)
  have 1: "name (elections s e) = [] \<longrightarrow> finalizeElection now e s = Inl ElectionNotFound"
    by (simp add: finalizeElection_closed)
  have 2: "now < unat (endTime (elections s e)) \<longrightarrow> finalizeElection now e s = Inl ElectionOngoing"
    using z by (auto simp: finalizeElection_closed noElection_def)
  have 3: "finalized (elections s e) \<longrightarrow> finalizeElection now e s = Inl ElectionAlreadyFinalized"
    using z c by (auto simp: finalizeElection_closed noElection_def)
  have 4: "\<forall>err. finalizeElection now e s = Inl err \<longrightarrow> exec (a, now, FinalizeElection e) s = s"
    by simp
  have op: "(if isInitialized v then v else asEuint32 0) = operand v" for v
    by (simp add: operand_def)
  have 5: "\<exists>s'. finalizeElection now e s = Inr s' \<and> exec (a, now, FinalizeElection e) s = s' \<and>
               finalized (elections s' e) \<and>
               (\<forall>i. i < length (options (elections s e)) \<longrightarrow>
                  tallies s' e i =
                    (if isInitialized (tallies s e i) then tallies s e i else asEuint32 0) \<and>
                  isPubliclyDecryptable (allowedForDecryption s') (tallies s' e i) \<and>
                  isTallyPublic e i s' = Inr True \<and>
                  publicDecrypt (allowedForDecryption s') (tallies s' e i) =
                    Some (plaintext (tallies s e i)) \<and>
                  plaintext (tallies s' e i) = plaintext (tallies s e i))"
    if h: "name (elections s e) \<noteq> []" "unat (endTime (elections s e)) \<le> now"
      "\<not> finalized (elections s e)"
  proof -
    let ?k = "length (options (elections s e))"
    define s' where "s' = s\<lparr>tallies := (\<lambda>e' j. if e' = e \<and> j < ?k
                          then operand (tallies s e' j) else tallies s e' j),
                 allowedForDecryption := (\<lambda>h. allowedForDecryption s h \<or>
                    h \<in> set (map (\<lambda>j. operand (tallies s e j)) [0..<?k])),
                 elections := (elections s)(e := (elections s e)\<lparr>finalized := True\<rparr>)\<rparr>"
    from h have f: "finalizeElection now e s = Inr s'"
      by (simp add: finalizeElection_closed wf_optionCount [OF w] s'_def)
    then have x: "exec (a, now, FinalizeElection e) s = s'" by simp
    have fl: "finalized (elections s' e)" by (simp add: s'_def)
    have el: "name (elections s' e) \<noteq> []" "options (elections s' e) = options (elections s e)"
      using h by (simp_all add: s'_def)
    have "tallies s' e i = operand (tallies s e i) \<and>
          isPubliclyDecryptable (allowedForDecryption s') (tallies s' e i) \<and>
          isTallyPublic e i s' = Inr True \<and>
          publicDecrypt (allowedForDecryption s') (tallies s' e i) = Some (plaintext (tallies s e i)) \<and>
          plaintext (tallies s' e i) = plaintext (tallies s e i)"
      if i: "i < ?k" for i
    proof -
      from i have t: "tallies s' e i = operand (tallies s e i)" by (simp add: s'_def)
      from i have p: "allowedForDecryption s' (operand (tallies s e i))"
        by (simp add: s'_def)
      from t p el i show ?thesis
        by (simp add: isPubliclyDecryptable_def publicDecrypt_def isTallyPublic_def
            requireValidOption_def requireElection_def)
    qed
    with f x fl show ?thesis
      unfolding op by blast
  qed
  from 1 2 3 4 5 show ?thesis by blast
qed

theorem finalizeElection_spec_witness:
  "chronological 0 polled \<and> clock 0 polled \<le> 40 \<and>
   finalizeElection 40 1 (run deployed polled) = Inl ElectionNotFound \<and>
   finalizeElection 40 0 (run deployed polled) = Inl ElectionOngoing \<and>
   exec (bob, 40, FinalizeElection 0) (run deployed polled) = run deployed polled \<and>
   finalizeElection 80 0 (run deployed concluded) = Inl ElectionAlreadyFinalized \<and>
   finalizeElection 70 0 (run deployed polled) = Inr (run deployed concluded) \<and>
   finalized (elections (run deployed concluded) 0) \<and>
   tallies (run deployed concluded) 0 1 = tallies (run deployed polled) 0 1 \<and>
   isTallyPublic 0 0 (run deployed concluded) = Inr True \<and>
   isTallyPublic 0 1 (run deployed concluded) = Inr True \<and>
   publicDecrypt (allowedForDecryption (run deployed concluded)) (tallies (run deployed concluded) 0 0) = Some 0 \<and>
   publicDecrypt (allowedForDecryption (run deployed concluded)) (tallies (run deployed concluded) 0 1) = Some 2 \<and>
   \<not> isInitialized (tallies (run deployed opened) 0 0) \<and>
   tallies (run (run deployed opened) [(carol, 70, FinalizeElection 0)]) 0 0 = asEuint32 0"
proof -
  let ?o = "run deployed opened" and ?p = "run deployed polled" and ?c = "run deployed concluded"
  have ho: "chronological 0 opened" "clock 0 opened \<le> 70"
    and hp: "chronological 0 polled" "clock 0 polled \<le> 40" "clock 0 polled \<le> 70"
    and hc: "chronological 0 concluded" "clock 0 concluded \<le> 80"
    by (simp_all add: scenario)
  have o: "elections ?o 0 =
      \<lparr>name = ''Referendum'', endTime = 70, finalized = False, creator = alice, options = [''Yes'', ''No'']\<rparr>"
    "tallies ?o 0 0 = Uninitialized"
    by (simp_all add: scenario closed)
  have p: "elections ?p 0 =
      \<lparr>name = ''Referendum'', endTime = 70, finalized = False, creator = alice, options = [''Yes'', ''No'']\<rparr>"
    "name (elections ?p 1) = []"
    "plaintext (tallies ?p 0 0) = 0" "plaintext (tallies ?p 0 1) = 2"
    "isInitialized (tallies ?p 0 0)" "isInitialized (tallies ?p 0 1)"
    by (simp_all add: scenario closed add_def select_def eq_def asEuint32_def operand_def)
  have c: "finalized (elections ?c 0)" "?c = exec (carol, 70, FinalizeElection 0) ?p"
    by (simp_all add: scenario closed)
  have l: "(0::nat) < length [''Yes'', ''No'']" "(1::nat) < length [''Yes'', ''No'']"
    by simp_all
  note t1 = finalizeElection_spec [OF hp(1) refl hp(2), where e = 1]
  note t2 = finalizeElection_spec [OF hp(1) refl hp(2), where e = 0 and a = bob]
  note t3 = finalizeElection_spec [OF hc(1) refl hc(2), where e = 0]
  note t4 = finalizeElection_spec [OF hp(1) refl hp(3), where e = 0 and a = carol]
  note t5 = finalizeElection_spec [OF ho(1) refl ho(2), where e = 0 and a = carol]
  from t1 p have r1: "finalizeElection 40 1 ?p = Inl ElectionNotFound" by blast
  from t2 p have r2: "finalizeElection 40 0 ?p = Inl ElectionOngoing" by simp
  from t2 r2 have r3: "exec (bob, 40, FinalizeElection 0) ?p = ?p" by blast
  from t3 c have r4: "finalizeElection 80 0 ?c = Inl ElectionAlreadyFinalized" by blast
  have pre4: "name (elections ?p 0) \<noteq> [] \<and> unat (endTime (elections ?p 0)) \<le> 70 \<and>
      \<not> finalized (elections ?p 0)"
    by (simp add: p(1))
  from t4 pre4 obtain s' where s': "finalizeElection 70 0 ?p = Inr s'"
      "exec (carol, 70, FinalizeElection 0) ?p = s'"
    and q: "\<forall>i. i < length (options (elections ?p 0)) \<longrightarrow>
       tallies s' 0 i = (if isInitialized (tallies ?p 0 i) then tallies ?p 0 i else asEuint32 0) \<and>
       isPubliclyDecryptable (allowedForDecryption s') (tallies s' 0 i) \<and>
       isTallyPublic 0 i s' = Inr True \<and>
       publicDecrypt (allowedForDecryption s') (tallies s' 0 i) = Some (plaintext (tallies ?p 0 i)) \<and>
       plaintext (tallies s' 0 i) = plaintext (tallies ?p 0 i)"
    by blast
  from s'(2) c(2) have sc: "s' = ?c" by simp
  from s'(1) sc have r5: "finalizeElection 70 0 ?p = Inr ?c" by simp
  have lp: "0 < length (options (elections ?p 0))" "1 < length (options (elections ?p 0))"
    by (simp_all add: p(1))
  from q lp(1) have "isTallyPublic 0 0 s' = Inr True \<and>
       publicDecrypt (allowedForDecryption s') (tallies s' 0 0) = Some (plaintext (tallies ?p 0 0))"
    by blast
  with sc p(3) have r6: "isTallyPublic 0 0 ?c = Inr True \<and>
       publicDecrypt (allowedForDecryption ?c) (tallies ?c 0 0) = Some 0"
    by simp
  from q lp(2) have "tallies s' 0 1 = (if isInitialized (tallies ?p 0 1) then tallies ?p 0 1 else asEuint32 0) \<and>
       isTallyPublic 0 1 s' = Inr True \<and>
       publicDecrypt (allowedForDecryption s') (tallies s' 0 1) = Some (plaintext (tallies ?p 0 1))"
    by blast
  with sc p(4,6) have r7: "tallies ?c 0 1 = tallies ?p 0 1 \<and> isTallyPublic 0 1 ?c = Inr True \<and>
       publicDecrypt (allowedForDecryption ?c) (tallies ?c 0 1) = Some 2"
    by auto
  have pre5: "name (elections ?o 0) \<noteq> [] \<and> unat (endTime (elections ?o 0)) \<le> 70 \<and>
      \<not> finalized (elections ?o 0)"
    by (simp add: o(1))
  have lo: "0 < length (options (elections ?o 0))"
    by (simp add: o(1))
  from t5 pre5 obtain s'' where s'': "exec (carol, 70, FinalizeElection 0) ?o = s''"
    and q': "\<forall>i. i < length (options (elections ?o 0)) \<longrightarrow>
       tallies s'' 0 i = (if isInitialized (tallies ?o 0 i) then tallies ?o 0 i else asEuint32 0) \<and>
       isPubliclyDecryptable (allowedForDecryption s'') (tallies s'' 0 i) \<and>
       isTallyPublic 0 i s'' = Inr True \<and>
       publicDecrypt (allowedForDecryption s'') (tallies s'' 0 i) = Some (plaintext (tallies ?o 0 i)) \<and>
       plaintext (tallies s'' 0 i) = plaintext (tallies ?o 0 i)"
    by blast
  from q' lo have "tallies s'' 0 0 = (if isInitialized (tallies ?o 0 0) then tallies ?o 0 0 else asEuint32 0)"
    by blast
  with s'' o(2) have r8: "tallies (run ?o [(carol, 70, FinalizeElection 0)]) 0 0 = asEuint32 0"
    by simp
  have r9: "\<not> isInitialized (tallies ?o 0 0)"
    by (simp add: o(2))
  from hp(1,2) r1 r2 r3 r4 r5 r6 r7 r8 r9 c(1) show ?thesis by blast
qed

subsection \<open>What a vote does to the accumulators\<close>

lemma word32_eq_of_nat:
  fixes c :: "32 word"
  assumes "i < 2 ^ 32"
  shows "c = of_nat i \<longleftrightarrow> unat c = i"
  using assms by (simp add: word_unat_eq_iff unat_of_nat)

lemma plaintext_add: "plaintext (add a b) = plaintext a + plaintext b"
  by (simp add: add_def)

lemma plaintext_voteDelta:
  assumes "i < 2 ^ 32"
  shows "plaintext (select (eq c (asEuint32 (of_nat i))) (asEuint32 1) (asEuint32 0)) =
         (if unat (plaintext c) = i then 1 else 0)"
  using word32_eq_of_nat [OF assms, of "plaintext c"]
  by (simp add: select_def eq_def asEuint32_def)

lemma add_fresh: "add v d \<noteq> v"
proof
  assume a: "add v d = v"
  then have "isInitialized v"
    by (cases v) (simp_all add: add_def)
  with a have "FheAdd v (operand d) = v"
    by (simp add: add_def)
  then have "size (FheAdd v (operand d)) = size v"
    by (rule arg_cong)
  then show False by simp
qed

text \<open>
  C2. An accepted vote whose encrypted choice hides the plaintext \<open>c\<close> rewrites every
  accumulator \<open>i\<close> below the option count \<open>k\<close> of its election with
  \<open>add acc (select (eq c i) 1 0)\<close>: in plaintext the accumulator of option \<open>c\<close>
  grows by one (in 32-bit arithmetic) and every other accumulator keeps its value,
  while all \<open>k\<close> accumulators hold a freshly written value, different from the one
  they held. Accumulators at or beyond \<open>k\<close> and those of other elections are
  untouched.
\<close>

theorem vote_updates_every_accumulator:
  assumes "s = run deployed txs" "vote a now e ext pf s = Inr s'"
  shows "fromExternal ext pf a = Inr (Verified ext) \<and>
         plaintext (Verified ext) = ext_plain ext \<and>
         (\<forall>i. i < length (options (elections s e)) \<longrightarrow>
            tallies s' e i =
              add (tallies s e i)
                (select (eq (Verified ext) (asEuint32 (of_nat i))) (asEuint32 1) (asEuint32 0)) \<and>
            plaintext (tallies s' e i) =
              plaintext (tallies s e i) + (if unat (ext_plain ext) = i then 1 else 0) \<and>
            isInitialized (tallies s' e i) \<and>
            tallies s' e i \<noteq> tallies s e i) \<and>
         (\<forall>i. length (options (elections s e)) \<le> i \<longrightarrow> tallies s' e i = tallies s e i) \<and>
         (\<forall>e' i. e' \<noteq> e \<longrightarrow> tallies s' e' i = tallies s e' i)"
proof -
  have w: "wf s" using assms(1) by (rule wf_reachable)
  note k = wf_optionCount [OF w, of e]
  from assms(2) have pr: "fromExternal ext pf a = Inr (Verified ext)"
    by (auto simp: vote_closed fromExternal_def split: if_splits)
  from assms(2) have t: "tallies s' = (\<lambda>e' j. if e' = e \<and> j < length (options (elections s e))
                          then add (tallies s e' j)
                                 (select (eq (Verified ext) (asEuint32 (of_nat j)))
                                    (asEuint32 1) (asEuint32 0))
                          else tallies s e' j)"
    by (auto simp: vote_closed k split: if_splits)
  have small: "i < 2 ^ 32" if "i < length (options (elections s e))" for i
    using that wf_options_le [OF w, of e] by simp
  have 1: "\<forall>i. i < length (options (elections s e)) \<longrightarrow>
            tallies s' e i =
              add (tallies s e i)
                (select (eq (Verified ext) (asEuint32 (of_nat i))) (asEuint32 1) (asEuint32 0)) \<and>
            plaintext (tallies s' e i) =
              plaintext (tallies s e i) + (if unat (ext_plain ext) = i then 1 else 0) \<and>
            isInitialized (tallies s' e i) \<and>
            tallies s' e i \<noteq> tallies s e i"
  proof (intro allI impI)
    fix i assume i: "i < length (options (elections s e))"
    let ?d = "select (eq (Verified ext) (asEuint32 (of_nat i))) (asEuint32 1) (asEuint32 0)"
    from i have eq: "tallies s' e i = add (tallies s e i) ?d"
      by (simp add: t)
    have pd: "plaintext ?d = (if unat (ext_plain ext) = i then 1 else 0)"
      using plaintext_voteDelta [OF small [OF i], of "Verified ext"] by simp
    have init: "isInitialized (add (tallies s e i) ?d)"
      by (simp add: add_def)
    from eq pd init add_fresh [of "tallies s e i" ?d]
    show "tallies s' e i = add (tallies s e i) ?d \<and>
            plaintext (tallies s' e i) =
              plaintext (tallies s e i) + (if unat (ext_plain ext) = i then 1 else 0) \<and>
            isInitialized (tallies s' e i) \<and>
            tallies s' e i \<noteq> tallies s e i"
      by (simp add: plaintext_add)
  qed
  have 2: "\<forall>i. length (options (elections s e)) \<le> i \<longrightarrow> tallies s' e i = tallies s e i"
    by (simp add: t)
  have 3: "\<forall>e' i. e' \<noteq> e \<longrightarrow> tallies s' e' i = tallies s e' i"
    by (simp add: t)
  have 4: "plaintext (Verified ext) = ext_plain ext"
    by simp
  from pr 4 1 2 3 show ?thesis by blast
qed

theorem vote_updates_every_accumulator_witness:
  "vote bob 30 0 (ballot bob 1) [1] (run deployed (take 2 polled)) = Inr (run deployed polled) \<and>
   plaintext (tallies (run deployed (take 2 polled)) 0 0) = 0 \<and>
   plaintext (tallies (run deployed (take 2 polled)) 0 1) = 1 \<and>
   plaintext (tallies (run deployed polled) 0 0) = 0 \<and>
   plaintext (tallies (run deployed polled) 0 1) = 2 \<and>
   isInitialized (tallies (run deployed polled) 0 0) \<and>
   tallies (run deployed polled) 0 0 \<noteq> tallies (run deployed (take 2 polled)) 0 0 \<and>
   tallies (run deployed polled) 0 2 = Uninitialized"
proof -
  let ?s = "run deployed (take 2 polled)" and ?s' = "run deployed polled"
  have v: "vote bob 30 0 (ballot bob 1) [1] ?s = Inr ?s'"
    by (simp add: scenario closed)
  have o: "plaintext (tallies ?s 0 0) = 0" "plaintext (tallies ?s 0 1) = 1"
    "tallies ?s 0 2 = Uninitialized"
    by (simp_all add: scenario closed add_def select_def eq_def asEuint32_def operand_def)
  have l: "0 < length (options (elections ?s 0))" "1 < length (options (elections ?s 0))"
    "length (options (elections ?s 0)) \<le> 2"
    by (simp_all add: scenario closed)
  have c: "unat (ext_plain (ballot bob 1)) = 1"
    by (simp add: ballot_def)
  note t = vote_updates_every_accumulator [OF refl v]
  from t l(1) have "plaintext (tallies ?s' 0 0) =
      plaintext (tallies ?s 0 0) + (if unat (ext_plain (ballot bob 1)) = 0 then 1 else 0) \<and>
      isInitialized (tallies ?s' 0 0) \<and> tallies ?s' 0 0 \<noteq> tallies ?s 0 0"
    by blast
  with o c have r0: "plaintext (tallies ?s' 0 0) = 0 \<and> isInitialized (tallies ?s' 0 0) \<and>
      tallies ?s' 0 0 \<noteq> tallies ?s 0 0"
    by simp
  from t l(2) have "plaintext (tallies ?s' 0 1) =
      plaintext (tallies ?s 0 1) + (if unat (ext_plain (ballot bob 1)) = 1 then 1 else 0)"
    by blast
  with o c have r1: "plaintext (tallies ?s' 0 1) = 2"
    by simp
  from t l(3) have "tallies ?s' 0 2 = tallies ?s 0 2"
    by blast
  with o have r2: "tallies ?s' 0 2 = Uninitialized"
    by simp
  from v o r0 r1 r2 show ?thesis by blast
qed

text \<open>
  C9. A vote whose encrypted choice hides a plaintext \<open>c\<close> at or above the option
  count \<open>k\<close> of an open election passes every check (given a valid proof) and is
  accepted: the caller's ballot record is created and \<open>hasAddressVoted\<close> becomes
  true, yet each of the \<open>k\<close> accumulators is incremented by the selected delta,
  which is an encryption of zero, so no plaintext tally changes.
\<close>

theorem out_of_range_vote_accepted:
  assumes "s = run deployed txs"
    and "name (elections s e) \<noteq> []" and "now < unat (endTime (elections s e))"
    and "\<not> finalized (elections s e)" and "\<not> hasVoted s e a"
    and "pf = ext_proof ext" and "a = ext_user ext"
    and "length (options (elections s e)) \<le> unat (ext_plain ext)"
  shows "\<exists>s'. vote a now e ext pf s = Inr s' \<and>
           hasVoted s' e a \<and> hasAddressVoted e a s' = Inr True \<and>
           (\<forall>i. i < length (options (elections s e)) \<longrightarrow>
              tallies s' e i =
                add (tallies s e i)
                  (select (eq (Verified ext) (asEuint32 (of_nat i))) (asEuint32 1) (asEuint32 0)) \<and>
              plaintext (select (eq (Verified ext) (asEuint32 (of_nat i))) (asEuint32 1) (asEuint32 0)) =
                plaintext (asEuint32 0) \<and>
              plaintext (asEuint32 0) = 0 \<and>
              plaintext (tallies s' e i) = plaintext (tallies s e i)) \<and>
           (\<forall>e' i. plaintext (tallies s' e' i) = plaintext (tallies s e' i))"
proof -
  have w: "wf s" using assms(1) by (rule wf_reachable)
  note k = wf_optionCount [OF w, of e]
  have small: "i < 2 ^ 32" if "i < length (options (elections s e))" for i
    using that wf_options_le [OF w, of e] by simp
  have d: "plaintext (select (eq (Verified ext) (asEuint32 (of_nat i))) (asEuint32 1) (asEuint32 0)) = 0"
    if "i < length (options (elections s e))" for i
    using that assms(8) plaintext_voteDelta [OF small [OF that], of "Verified ext"]
    by simp
  define s' where "s' = s\<lparr>tallies := (\<lambda>e' j. if e' = e \<and> j < length (options (elections s e))
                          then add (tallies s e' j)
                                 (select (eq (Verified ext) (asEuint32 (of_nat j)))
                                    (asEuint32 1) (asEuint32 0))
                          else tallies s e' j),
                 hasVoted := (hasVoted s)(e := (hasVoted s e)(a := True))\<rparr>"
  from assms(2-7) have v: "vote a now e ext pf s = Inr s'"
    by (simp add: vote_closed k s'_def)
  have h: "hasVoted s' e a" "hasAddressVoted e a s' = Inr True"
    using assms(2) by (simp_all add: s'_def hasAddressVoted_def requireElection_def)
  have 1: "\<forall>i. i < length (options (elections s e)) \<longrightarrow>
              tallies s' e i =
                add (tallies s e i)
                  (select (eq (Verified ext) (asEuint32 (of_nat i))) (asEuint32 1) (asEuint32 0)) \<and>
              plaintext (select (eq (Verified ext) (asEuint32 (of_nat i))) (asEuint32 1) (asEuint32 0)) =
                plaintext (asEuint32 0) \<and>
              plaintext (asEuint32 0) = 0 \<and>
              plaintext (tallies s' e i) = plaintext (tallies s e i)"
    using d by (simp add: s'_def plaintext_add asEuint32_def)
  have 2: "\<forall>e' i. plaintext (tallies s' e' i) = plaintext (tallies s e' i)"
    using d by (simp add: s'_def plaintext_add)
  from v h 1 2 show ?thesis by blast
qed

theorem out_of_range_vote_accepted_witness:
  "length (options (elections (run deployed opened) 0)) \<le> unat (ext_plain (ballot alice 5)) \<and>
   vote alice 20 0 (ballot alice 5) [1] (run deployed opened) = Inr (run deployed (take 2 spoiled)) \<and>
   \<not> hasVoted (run deployed opened) 0 alice \<and>
   hasVoted (run deployed (take 2 spoiled)) 0 alice \<and>
   hasAddressVoted 0 alice (run deployed (take 2 spoiled)) = Inr True \<and>
   plaintext (tallies (run deployed opened) 0 0) = 0 \<and>
   plaintext (tallies (run deployed opened) 0 1) = 0 \<and>
   plaintext (tallies (run deployed (take 2 spoiled)) 0 0) = 0 \<and>
   plaintext (tallies (run deployed (take 2 spoiled)) 0 1) = 0 \<and>
   isInitialized (tallies (run deployed (take 2 spoiled)) 0 0)"
proof -
  let ?s = "run deployed opened" and ?s' = "run deployed (take 2 spoiled)"
  have h: "name (elections ?s 0) \<noteq> []" "20 < unat (endTime (elections ?s 0))"
    "\<not> finalized (elections ?s 0)" "\<not> hasVoted ?s 0 alice"
    "[1] = ext_proof (ballot alice 5)" "alice = ext_user (ballot alice 5)"
    "length (options (elections ?s 0)) \<le> unat (ext_plain (ballot alice 5))"
    by (simp_all add: scenario closed)
  have o: "tallies ?s 0 0 = Uninitialized" "tallies ?s 0 1 = Uninitialized"
    by (simp_all add: scenario closed)
  have v: "vote alice 20 0 (ballot alice 5) [1] ?s = Inr ?s'"
    by (simp add: scenario closed)
  have i: "isInitialized (tallies ?s' 0 0)"
    by (simp add: scenario closed add_def)
  from out_of_range_vote_accepted [OF refl h] v
  have "hasVoted ?s' 0 alice \<and> hasAddressVoted 0 alice ?s' = Inr True \<and>
        plaintext (tallies ?s' 0 0) = plaintext (tallies ?s 0 0) \<and>
        plaintext (tallies ?s' 0 1) = plaintext (tallies ?s 0 1)"
    by auto
  with h v o i show ?thesis by simp
qed

subsection \<open>Tallies count the accepted votes\<close>

lemma votesFor_snoc: "votesFor i (cs @ [c]) = votesFor i cs + (if unat c = i then 1 else 0)"
  by (simp add: votesFor_def)

lemma votesFor_le: "votesFor i cs \<le> length cs"
  by (simp add: votesFor_def)

lemma sum_votesFor:
  "sum_list (map (\<lambda>i. votesFor i cs) [0..<k]) = length (filter (\<lambda>c. unat c < k) cs)"
proof (induction k)
  case 0
  then show ?case by simp
next
  case (Suc k)
  have "length (filter (\<lambda>c. unat c < Suc k) cs) =
        length (filter (\<lambda>c. unat c < k) cs) + votesFor k cs"
    unfolding votesFor_def by (induction cs) auto
  with Suc show ?case by simp
qed

lemma tallied_deployed: "tallied deployed e []"
  by (simp add: tallied_def deployed_def noElection_def ballotCount_def votesFor_def)

lemma ballotCount_insert:
  assumes "\<not> hasVoted s e a"
  shows "card {b. ((hasVoted s e)(a := True)) b} = Suc (ballotCount s e)"
proof -
  have "{b. ((hasVoted s e)(a := True)) b} = insert a {b. hasVoted s e b}"
    by auto
  moreover have "a \<notin> {b. hasVoted s e b}" using assms by simp
  ultimately show ?thesis by (simp add: ballotCount_def)
qed

lemma tallied_createElection:
  assumes "wf s" "tallied s e cs" "createElection a now nm opts et s = Inr (eid, s')"
  shows "tallied s' e cs"
proof (cases "e = nextElectionId s")
  case True
  with assms(1) have u: "\<And>i. tallies s e i = Uninitialized" "\<And>b. \<not> hasVoted s e b"
    by (simp_all add: wf_def)
  with assms(2) have "cs = []" by (simp add: tallied_def ballotCount_def)
  with assms(3) u show ?thesis
    by (auto simp: createElection_closed tallied_def ballotCount_def votesFor_def split: if_splits)
next
  case False
  with assms(2,3) show ?thesis
    by (auto simp: createElection_closed tallied_def ballotCount_def split: if_splits)
qed

lemma tallied_finalizeElection:
  assumes "tallied s e cs" "finalizeElection now e' s = Inr s'"
  shows "tallied s' e cs"
proof -
  from assms(2) have t: "\<And>i. plaintext (tallies s' e i) = plaintext (tallies s e i)"
    and o: "options (elections s' e) = options (elections s e)"
    and h: "hasVoted s' = hasVoted s"
    by (auto simp: finalizeElection_closed split: if_splits)
  with assms(1) show ?thesis
    by (simp add: tallied_def ballotCount_def)
qed

lemma tallied_vote_other:
  assumes "tallied s e cs" "vote a now e' ext pf s = Inr s'" "e' \<noteq> e"
  shows "tallied s' e cs"
  using assms
  by (auto simp: vote_closed tallied_def ballotCount_def split: if_splits)

lemma tallied_vote_same:
  assumes "wf s" "tallied s e cs" "vote a now e ext pf s = Inr s'"
  shows "tallied s' e (cs @ [ext_plain ext])"
proof -
  note k = wf_optionCount [OF assms(1), of e]
  from assms(3) have nv: "\<not> hasVoted s e a"
    and o: "options (elections s' e) = options (elections s e)"
    and h: "hasVoted s' e = (hasVoted s e)(a := True)"
    and t: "\<And>i. i < length (options (elections s e)) \<Longrightarrow>
              tallies s' e i = add (tallies s e i)
                (select (eq (Verified ext) (asEuint32 (of_nat i)))
                   (asEuint32 1) (asEuint32 0))"
    by (auto simp: vote_closed k split: if_splits)
  have "plaintext (tallies s' e i) = of_nat (votesFor i (cs @ [ext_plain ext]))"
    if i: "i < length (options (elections s e))" for i
  proof -
    from i wf_options_le [OF assms(1), of e] have "i < 2 ^ 32" by simp
    note d = plaintext_voteDelta [OF this, of "Verified ext"]
    from assms(2) i have "plaintext (tallies s e i) = of_nat (votesFor i cs)"
      by (simp add: tallied_def)
    then show ?thesis
      by (simp add: t [OF i] d plaintext_add votesFor_snoc)
  qed
  moreover have "ballotCount s' e = length (cs @ [ext_plain ext])"
    using assms(2) ballotCount_insert [OF nv] by (simp add: ballotCount_def h tallied_def)
  ultimately show ?thesis
    by (simp add: tallied_def o)
qed

lemma tallied_run:
  assumes "wf s" "tallied s e cs"
  shows "tallied (run s txs) e (cs @ acceptedChoices e s txs)"
  using assms
proof (induction txs arbitrary: s cs)
  case Nil
  then show ?case by simp
next
  case (Cons x txs)
  obtain a now c where x: "x = (a, now, c)" by (cases x)
  let ?new = "case c of
        Vote electionId encryptedChoice inputProof \<Rightarrow>
          (if electionId = e \<and> \<not> isl (vote a now electionId encryptedChoice inputProof s)
           then [ext_plain encryptedChoice] else [])
      | _ \<Rightarrow> []"
  have step: "tallied (exec x s) e (cs @ ?new)"
  proof (cases c)
    case (CreateElection nm opts et)
    with x Cons.prems show ?thesis
      by (auto split: sum.splits dest: tallied_createElection)
  next
    case (Vote e' ext pf)
    show ?thesis
    proof (cases "vote a now e' ext pf s")
      case (Inl err)
      with x Vote Cons.prems(2) show ?thesis by simp
    next
      case (Inr s')
      show ?thesis
      proof (cases "e' = e")
        case True
        with x Vote Inr tallied_vote_same [OF Cons.prems, of a now ext pf s'] show ?thesis
          by simp
      next
        case False
        with x Vote Inr tallied_vote_other [OF Cons.prems(2), of a now e' ext pf s'] show ?thesis
          by simp
      qed
    qed
  next
    case (FinalizeElection e')
    with x Cons.prems show ?thesis
      by (auto split: sum.splits dest: tallied_finalizeElection)
  qed
  from Cons.IH [OF wf_exec [OF Cons.prems(1)] step]
  show ?case by (simp add: x)
qed


text \<open>
  C1, as stated, fails: in the run \<open>spoiled\<close> one vote is accepted, for a choice
  that names no option of the election, and after finalization there is one ballot
  record while the revealed tallies sum to zero.
\<close>

theorem tally_sum_counterexample:
  "finalized (elections (run deployed spoiled) 0) \<and>
   acceptedChoices 0 deployed spoiled = [5] \<and>
   ballotCount (run deployed spoiled) 0 = 1 \<and>
   publicDecrypt (allowedForDecryption (run deployed spoiled)) (tallies (run deployed spoiled) 0 0) = Some 0 \<and>
   publicDecrypt (allowedForDecryption (run deployed spoiled)) (tallies (run deployed spoiled) 0 1) = Some 0 \<and>
   tallySum (run deployed spoiled) 0 = 0"
proof -
  let ?s = "run deployed spoiled"
  have 1: "finalized (elections ?s 0)"
    by (simp add: scenario closed)
  have 2: "acceptedChoices 0 deployed spoiled = [5]"
    by (simp add: scenario closed)
  have "{a. hasVoted ?s 0 a} = {alice}"
    by (auto simp: scenario closed)
  then have 3: "ballotCount ?s 0 = 1"
    by (simp add: ballotCount_def)
  have o: "options (elections ?s 0) = [''Yes'', ''No'']"
    by (simp add: scenario closed)
  have a: "allowedForDecryption ?s (tallies ?s 0 0)" "allowedForDecryption ?s (tallies ?s 0 1)"
    by (simp_all add: scenario closed add_def select_def eq_def asEuint32_def operand_def)
  have p: "plaintext (tallies ?s 0 0) = 0" "plaintext (tallies ?s 0 1) = 0"
    by (simp_all add: scenario closed add_def select_def eq_def asEuint32_def operand_def)
  from a p have 5: "publicDecrypt (allowedForDecryption ?s) (tallies ?s 0 0) = Some 0"
    "publicDecrypt (allowedForDecryption ?s) (tallies ?s 0 1) = Some 0"
    by (simp_all add: publicDecrypt_def isPubliclyDecryptable_def)
  have u: "[0..<2] = [0, Suc 0]"
    by (simp add: numeral_2_eq_2)
  from o 5 u have 4: "tallySum ?s 0 = 0"
    by (simp add: tallySum_def)
  from 1 2 3 4 5 show ?thesis by blast
qed

text \<open>
  C1, amended. After finalization the number of ballot records of an election equals
  the number \<open>N\<close> of accepted votes, every option's accumulator is revealed as the
  number of accepted votes whose plaintext choice is that option's index (as a 32-bit
  value), and, for fewer than \<open>2^32\<close> accepted votes, the sum of the revealed option
  tallies equals the number of accepted votes whose plaintext choice is a valid option
  index. The sum is \<open>N\<close> exactly when every accepted vote names an existing option.
\<close>

theorem tally_sum_counts_valid_choices:
  assumes "s = run deployed txs" and "finalized (elections s e)"
    and "length (acceptedChoices e deployed txs) < 2 ^ 32"
  shows "ballotCount s e = length (acceptedChoices e deployed txs) \<and>
         (\<forall>i. i < length (options (elections s e)) \<longrightarrow>
            publicDecrypt (allowedForDecryption s) (tallies s e i) =
              Some (of_nat (votesFor i (acceptedChoices e deployed txs)))) \<and>
         tallySum s e =
           length (filter (\<lambda>c. unat c < length (options (elections s e)))
                     (acceptedChoices e deployed txs))"
proof -
  let ?cs = "acceptedChoices e deployed txs"
  let ?k = "length (options (elections s e))"
  have w: "wf s" using assms(1) by (rule wf_reachable)
  have t: "tallied s e ?cs"
    using tallied_run [OF wf_deployed tallied_deployed, where e = e and txs = txs] assms(1) by simp
  then have 1: "ballotCount s e = length ?cs"
    by (simp add: tallied_def)
  from assms(2) w have ex: "e < nextElectionId s"
    using wf_exists [OF w, of e] by (auto simp: wf_def noElection_def intro: ccontr)
  have pd: "publicDecrypt (allowedForDecryption s) (tallies s e i) = Some (of_nat (votesFor i ?cs))"
    if "i < ?k" for i
  proof -
    from that assms(2) have "isPubliclyDecryptable (allowedForDecryption s) (tallies s e i)"
      unfolding isPubliclyDecryptable_def wf_allowed [OF w] by blast
    moreover from t that have "plaintext (tallies s e i) = of_nat (votesFor i ?cs)"
      by (simp add: tallied_def)
    ultimately show ?thesis by (simp add: publicDecrypt_def)
  qed
  have un: "unat (of_nat (votesFor i ?cs) :: 32 word) = votesFor i ?cs" for i
    using votesFor_le [of i ?cs] assms(3) by (simp add: unat_of_nat)
  have "tallySum s e = sum_list (map (\<lambda>i. votesFor i ?cs) [0..<?k])"
    unfolding tallySum_def
    by (rule arg_cong [where f = sum_list], rule map_cong) (simp_all add: pd un)
  also have "\<dots> = length (filter (\<lambda>c. unat c < ?k) ?cs)"
    by (rule sum_votesFor)
  finally have 3: "tallySum s e = length (filter (\<lambda>c. unat c < ?k) ?cs)" .
  from 1 pd 3 show ?thesis by blast
qed

theorem tally_sum_counts_valid_choices_witness:
  "finalized (elections (run deployed concluded) 0) \<and>
   acceptedChoices 0 deployed concluded = [1, 1] \<and>
   ballotCount (run deployed concluded) 0 = 2 \<and>
   publicDecrypt (allowedForDecryption (run deployed concluded)) (tallies (run deployed concluded) 0 0) = Some 0 \<and>
   publicDecrypt (allowedForDecryption (run deployed concluded)) (tallies (run deployed concluded) 0 1) = Some 2 \<and>
   tallySum (run deployed concluded) 0 = 2 \<and>
   finalized (elections (run deployed spoiled) 0) \<and>
   tallySum (run deployed spoiled) 0 = 0"
proof -
  let ?c = "run deployed concluded" and ?x = "run deployed spoiled"
  have f: "finalized (elections ?c 0)" "finalized (elections ?x 0)"
    by (simp_all add: scenario closed)
  have a: "acceptedChoices 0 deployed concluded = [1, 1]" "acceptedChoices 0 deployed spoiled = [5]"
    by (simp_all add: scenario closed)
  have o: "options (elections ?c 0) = [''Yes'', ''No'']" "options (elections ?x 0) = [''Yes'', ''No'']"
    by (simp_all add: scenario closed)
  have n: "length (acceptedChoices 0 deployed concluded) < 2 ^ 32"
    "length (acceptedChoices 0 deployed spoiled) < 2 ^ 32"
    by (simp_all add: a)
  note tc = tally_sum_counts_valid_choices [OF refl f(1) n(1)]
  note tx = tally_sum_counts_valid_choices [OF refl f(2) n(2)]
  from tc a o have 1: "ballotCount ?c 0 = 2 \<and> tallySum ?c 0 = 2"
    by simp
  from tc o have "publicDecrypt (allowedForDecryption ?c) (tallies ?c 0 0) =
         Some (of_nat (votesFor 0 (acceptedChoices 0 deployed concluded))) \<and>
       publicDecrypt (allowedForDecryption ?c) (tallies ?c 0 1) =
         Some (of_nat (votesFor 1 (acceptedChoices 0 deployed concluded)))"
    by simp
  then have 2: "publicDecrypt (allowedForDecryption ?c) (tallies ?c 0 0) = Some 0 \<and>
       publicDecrypt (allowedForDecryption ?c) (tallies ?c 0 1) = Some 2"
    by (simp add: a votesFor_def)
  from tx a o have 3: "tallySum ?x 0 = 0"
    by simp
  from f a 1 2 3 show ?thesis by blast
qed

end
